theory Spec2Isabelle
  imports Main "HOL-Library.Sublist" "HOL-Library.Multiset"
begin

section \<open>Strings, pointers and the argument vector\<close>

text \<open>
  The scanner of \<^verbatim>\<open>getopt.c\<close> compares elements of \<^verbatim>\<open>argv\<close> by address
  (\<^verbatim>\<open>argv[optind] != first\<close>) and keeps pointers into the middle of an element
  (\<^verbatim>\<open>optcursor\<close>, \<^verbatim>\<open>optarg\<close>), so a pointer is a block and an offset into it.
  The memory holding the strings is never written (every pointer is \<^verbatim>\<open>const char *\<close>):
  it is a parameter of the functions and not part of the state they return.
  A block holds the given characters followed by one terminating NUL.
\<close>

type_synonym block = nat

datatype cptr = NULL | Ptr block nat

type_synonym memory = "block \<Rightarrow> string"

text \<open>Reading through a null pointer or outside a block or array is undefined in C:
  the model stops with a fault there.\<close>

datatype fault = NullDeref | OutOfBounds

abbreviation NUL :: char where
  "NUL \<equiv> CHR 0x00"

text \<open>The C string a pointer points to: the characters from the offset up to the first NUL.\<close>

fun cstring :: "memory \<Rightarrow> cptr \<Rightarrow> fault + string" where
  "cstring mem NULL = Inl NullDeref"
| "cstring mem (Ptr b i) =
     (if i \<le> length (mem b) then Inr (takeWhile (\<lambda>c. c \<noteq> NUL) (drop i (mem b)))
      else Inl OutOfBounds)"

text \<open>\<^verbatim>\<open>s[i]\<close> on a string given by its characters: the terminator sits at \<open>length s\<close>.\<close>

definition char_at :: "string \<Rightarrow> nat \<Rightarrow> fault + char" where
  "char_at s i =
     (if i < length s then Inr (s ! i) else if i = length s then Inr NUL else Inl OutOfBounds)"

text \<open>\<^verbatim>\<open>*p\<close>: the first character of the string at \<open>p\<close>, NUL when that string is empty.\<close>

definition deref :: "memory \<Rightarrow> cptr \<Rightarrow> fault + char" where
  "deref mem p = (case cstring mem p of Inl f \<Rightarrow> Inl f | Inr t \<Rightarrow> char_at t 0)"

fun ptr_add :: "cptr \<Rightarrow> nat \<Rightarrow> cptr" where
  "ptr_add NULL n = NULL"
| "ptr_add (Ptr b i) n = Ptr b (i + n)"

text \<open>\<^verbatim>\<open>strchr\<close>, as the index of the first occurrence; it finds the terminator
  when asked for NUL.\<close>

fun strchr :: "string \<Rightarrow> char \<Rightarrow> nat option" where
  "strchr [] c = (if c = NUL then Some 0 else None)"
| "strchr (x # xs) c = (if x = c then Some 0 else map_option Suc (strchr xs c))"

text \<open>\<^verbatim>\<open>strncmp(a, b, n) == 0\<close> on strings given by their characters.\<close>

definition strncmp_eq :: "string \<Rightarrow> string \<Rightarrow> nat \<Rightarrow> bool" where
  "strncmp_eq a b n = (take n a = take n b)"

text \<open>\<^verbatim>\<open>strcspn(s, "=")\<close>.\<close>

definition strcspn_eq :: "string \<Rightarrow> nat" where
  "strcspn_eq s = length (takeWhile (\<lambda>c. c \<noteq> CHR ''='') s)"

text \<open>A character as the \<^verbatim>\<open>int\<close> the functions return. Characters are taken as
  unsigned; where \<^verbatim>\<open>char\<close> is signed, a character above 127 would be a negative
  \<^verbatim>\<open>int\<close>.\<close>

definition char_code :: "char \<Rightarrow> int" where
  "char_code c = of_char c"

section \<open>Scan state\<close>

text \<open>
  The globals of lines 35--42, the caller's \<^verbatim>\<open>argv\<close> array (reordered in place),
  the \<^verbatim>\<open>int\<close> variables that \<^verbatim>\<open>flag\<close> and \<^verbatim>\<open>longindex\<close> pointers refer to, and
  the diagnostics written to \<^verbatim>\<open>stderr\<close>. A diagnostic records which message was
  printed and its last argument; the program name \<^verbatim>\<open>argv[0]\<close> in front is left out.
  The \<^verbatim>\<open>int\<close> values are unbounded integers: the scan index stays below
  \<^verbatim>\<open>argc + 2\<close> and the number of matches is at most the length of the table, so for an
  \<^verbatim>\<open>argc\<close> and a table that fit the machine nothing wraps around.
\<close>

datatype diag =
    Invalid_option char
  | Requires_argument char
  | Unrecognized_option cptr
  | Ambiguous_option cptr

record gstate =
  optarg :: cptr
  optopt :: int
  optind :: int
  opterr :: int
  optcursor :: cptr
  first :: cptr
  argv :: "cptr list"
  ints :: "nat \<Rightarrow> int"
  stderr :: "diag list"

definition init_state :: "cptr list \<Rightarrow> gstate" where
  "init_state av =
     \<lparr>optarg = NULL, optopt = 0, optind = 1, opterr = 1, optcursor = NULL, first = NULL,
      argv = av, ints = (\<lambda>_. 0), stderr = []\<rparr>"

text \<open>\<^verbatim>\<open>argv[i]\<close>.\<close>

definition rd :: "cptr list \<Rightarrow> int \<Rightarrow> fault + cptr" where
  "rd av i = (if 0 \<le> i \<and> nat i < length av then Inr (av ! nat i) else Inl OutOfBounds)"

text \<open>\<^verbatim>\<open>rotate(argv + base, n)\<close>, lines 45--51.\<close>

definition rotate :: "cptr list \<Rightarrow> int \<Rightarrow> int \<Rightarrow> fault + cptr list" where
  "rotate av base n =
     (if n \<le> 1 then Inr av
      else if 0 \<le> base \<and> nat (base + n) \<le> length av then
        Inr (take (nat base) av @ take (nat n - 1) (drop (nat base + 1) av)
             @ [av ! nat base] @ drop (nat (base + n)) av)
      else Inl OutOfBounds)"

section \<open>getopt\<close>

text \<open>The loop of lines 91--93 (and 227--229). It need not end: \<open>None\<close> is a loop that
  runs forever.\<close>

partial_function (option)
  permute_loop :: "memory \<Rightarrow> cptr \<Rightarrow> int \<Rightarrow> int \<Rightarrow> cptr list \<Rightarrow> (fault + cptr list) option"
where
  "permute_loop mem anchor oi argc av =
     (case rotate av oi (argc - oi) of
        Inl f \<Rightarrow> Some (Inl f)
      | Inr av' \<Rightarrow>
          (case rd av' oi of
             Inl f \<Rightarrow> Some (Inl f)
           | Inr p \<Rightarrow>
               (case deref mem p of
                  Inl f \<Rightarrow> Some (Inl f)
                | Inr c \<Rightarrow>
                    if c \<noteq> CHR ''-'' \<and> p \<noteq> anchor then permute_loop mem anchor oi argc av'
                    else Some (Inr av'))))"

text \<open>The loop of lines 109--111.\<close>

partial_function (option)
  anchor_loop :: "cptr \<Rightarrow> int \<Rightarrow> int \<Rightarrow> cptr list \<Rightarrow> (fault + cptr list) option"
where
  "anchor_loop anchor oi argc av =
     (case rotate av oi (argc - oi) of
        Inl f \<Rightarrow> Some (Inl f)
      | Inr av' \<Rightarrow>
          (case rd av' oi of
             Inl f \<Rightarrow> Some (Inl f)
           | Inr p \<Rightarrow> if p \<noteq> anchor then anchor_loop anchor oi argc av' else Some (Inr av')))"

text \<open>Lines 65--71 (and 202--208): the per-call outputs are cleared, and so is
  \<^verbatim>\<open>opterr\<close>; an index of 1 or less starts a new pass.\<close>

definition getopt_begin :: "gstate \<Rightarrow> gstate" where
  "getopt_begin s =
     (let s1 = s\<lparr>optarg := NULL, opterr := 0, optopt := 0\<rparr>
      in if optind s1 \<le> 1 then s1\<lparr>optind := 1\<rparr> else s1)"

text \<open>Lines 79--97 (and, word for word, 215--233). \<open>No_more\<close> is
  \<^verbatim>\<open>goto no_more_optchars\<close>, \<open>Scan\<close> falls through to the code below.\<close>

datatype entry = No_more gstate | Scan gstate

definition permute :: "memory \<Rightarrow> int \<Rightarrow> gstate \<Rightarrow> (fault + entry) option" where
  "permute mem argc s =
     (case rd (argv s) (optind s) of
        Inl f \<Rightarrow> Some (Inl f)
      | Inr p \<Rightarrow>
          if p = NULL then Some (Inr (No_more s))
          else
            (case deref mem p of
               Inl f \<Rightarrow> Some (Inl f)
             | Inr c \<Rightarrow>
                 if c \<noteq> CHR ''-'' then
                   if argc - optind s \<le> 1 then Some (Inr (No_more s))
                   else
                     (let s1 = (if first s = NULL then s\<lparr>first := p\<rparr> else s)
                      in case permute_loop mem (first s1) (optind s1) argc (argv s1) of
                           None \<Rightarrow> None
                         | Some (Inl f) \<Rightarrow> Some (Inl f)
                         | Some (Inr av) \<Rightarrow>
                             (case rd av (optind s1) of
                                Inl f \<Rightarrow> Some (Inl f)
                              | Inr q \<Rightarrow>
                                  if q = first s1 then Some (Inr (No_more (s1\<lparr>argv := av\<rparr>)))
                                  else Some (Inr (Scan (s1\<lparr>argv := av\<rparr>)))))
                 else Some (Inr (Scan s))))"

text \<open>The label \<^verbatim>\<open>no_more_optchars\<close> of \<^verbatim>\<open>getopt\<close>, lines 182--185.\<close>

definition no_more_optchars :: "gstate \<Rightarrow> gstate" where
  "no_more_optchars s = s\<lparr>optcursor := NULL, first := NULL\<rparr>"

text \<open>\<^verbatim>\<open>getopt\<close> up to line 123, where the option character has been read and
  \<^verbatim>\<open>optstring\<close> has not been looked at yet: the call has either finished with -1, or holds
  the option character.\<close>

datatype scan = Finished int gstate | Optchar char gstate

definition short_cursor :: "memory \<Rightarrow> int \<Rightarrow> gstate \<Rightarrow> (fault + scan) option" where
  "short_cursor mem argc s =
     (case rd (argv s) (optind s) of
        Inl f \<Rightarrow> Some (Inl f)
      | Inr p \<Rightarrow>
          (case cstring mem p of
             Inl f \<Rightarrow> Some (Inl f)
           | Inr t \<Rightarrow>
               if t = ''-'' then Some (Inr (Finished (- 1) (no_more_optchars s)))
               else if t = ''--'' then
                 (let s1 = s\<lparr>optind := optind s + 1\<rparr>
                  in if first s1 \<noteq> NULL then
                       (case anchor_loop (first s1) (optind s1) argc (argv s1) of
                          None \<Rightarrow> None
                        | Some (Inl f) \<Rightarrow> Some (Inl f)
                        | Some (Inr av) \<Rightarrow>
                            Some (Inr (Finished (- 1) (no_more_optchars (s1\<lparr>argv := av\<rparr>)))))
                     else Some (Inr (Finished (- 1) (no_more_optchars s1))))
               else
                 (case (if optcursor s = NULL then Inr NUL else deref mem (optcursor s)) of
                    Inl f \<Rightarrow> Some (Inl f)
                  | Inr e \<Rightarrow>
                      (let s1 = (if e = NUL then s\<lparr>optcursor := ptr_add p 1\<rparr> else s)
                       in case deref mem (optcursor s1) of
                            Inl f \<Rightarrow> Some (Inl f)
                          | Inr c \<Rightarrow> Some (Inr (Optchar c (s1\<lparr>optopt := char_code c\<rparr>)))))))"

definition getopt_front :: "memory \<Rightarrow> int \<Rightarrow> gstate \<Rightarrow> (fault + scan) option" where
  "getopt_front mem argc s0 =
     (let s = getopt_begin s0
      in if optind s \<ge> argc then Some (Inr (Finished (- 1) (no_more_optchars s)))
         else
           (case permute mem argc s of
              None \<Rightarrow> None
            | Some (Inl f) \<Rightarrow> Some (Inl f)
            | Some (Inr (No_more s1)) \<Rightarrow> Some (Inr (Finished (- 1) (no_more_optchars s1)))
            | Some (Inr (Scan s1)) \<Rightarrow> short_cursor mem argc s1))"

text \<open>Line 177: \<^verbatim>\<open>if (optcursor == NULL || *++optcursor == '\0') ++optind;\<close>\<close>

definition short_advance :: "memory \<Rightarrow> int \<Rightarrow> gstate \<Rightarrow> fault + int \<times> gstate" where
  "short_advance mem optchar s =
     (if optcursor s = NULL then Inr (optchar, s\<lparr>optind := optind s + 1\<rparr>)
      else
        (let s1 = s\<lparr>optcursor := ptr_add (optcursor s) 1\<rparr>
         in case deref mem (optcursor s1) of
              Inl f \<Rightarrow> Inl f
            | Inr c \<Rightarrow>
                if c = NUL then Inr (optchar, s1\<lparr>optind := optind s1 + 1\<rparr>)
                else Inr (optchar, s1)))"

text \<open>Lines 132--168: the option character is declared with a colon after it.\<close>

definition short_argument ::
  "memory \<Rightarrow> int \<Rightarrow> string \<Rightarrow> nat \<Rightarrow> char \<Rightarrow> gstate \<Rightarrow> fault + int \<times> gstate" where
  "short_argument mem argc optstring d c s =
     (let s1 = s\<lparr>optcursor := ptr_add (optcursor s) 1\<rparr>;
          s2 = s1\<lparr>optarg := optcursor s1\<rparr>
      in case deref mem (optarg s2) of
           Inl f \<Rightarrow> Inl f
         | Inr a \<Rightarrow>
             if a = NUL then
               (case char_at optstring (d + 2) of
                  Inl f \<Rightarrow> Inl f
                | Inr c2 \<Rightarrow>
                    if c2 \<noteq> CHR '':'' then
                      (let s3 = s2\<lparr>optind := optind s2 + 1\<rparr>
                       in if optind s3 < argc then
                            (case rd (argv s3) (optind s3) of
                               Inl f \<Rightarrow> Inl f
                             | Inr q \<Rightarrow> Inr (char_code c, s3\<lparr>optarg := q, optcursor := NULL\<rparr>))
                          else
                            (let s4 = s3\<lparr>optarg := NULL\<rparr>;
                                 s5 = (if opterr s4 \<noteq> 0
                                       then s4\<lparr>stderr := stderr s4 @ [Requires_argument c]\<rparr>
                                       else s4)
                             in case char_at optstring 0 of
                                  Inl f \<Rightarrow> Inl f
                                | Inr c0 \<Rightarrow>
                                    Inr (if c0 = CHR '':'' then char_code CHR '':''
                                         else char_code CHR ''?'',
                                         s5\<lparr>optcursor := NULL\<rparr>)))
                    else Inr (char_code c, s2\<lparr>optarg := NULL, optcursor := NULL\<rparr>))
             else Inr (char_code c, s2\<lparr>optcursor := NULL\<rparr>))"

text \<open>Lines 128--180, from the lookup of the option character in \<^verbatim>\<open>optstring\<close>.\<close>

definition short_option ::
  "memory \<Rightarrow> int \<Rightarrow> string \<Rightarrow> char \<Rightarrow> gstate \<Rightarrow> fault + int \<times> gstate" where
  "short_option mem argc optstring c s =
     (case
        (case strchr optstring c of
           Some d \<Rightarrow>
             (case char_at optstring (d + 1) of
                Inl f \<Rightarrow> Inl f
              | Inr c1 \<Rightarrow>
                  if c1 = CHR '':'' then short_argument mem argc optstring d c s
                  else Inr (char_code c, s))
         | None \<Rightarrow>
             Inr (char_code CHR ''?'',
                  if opterr s \<noteq> 0 then s\<lparr>stderr := stderr s @ [Invalid_option c]\<rparr> else s))
      of
        Inl f \<Rightarrow> Inl f
      | Inr (optchar, s1) \<Rightarrow> short_advance mem optchar s1)"

definition getopt :: "memory \<Rightarrow> int \<Rightarrow> string \<Rightarrow> gstate \<Rightarrow> (fault + int \<times> gstate) option" where
  "getopt mem argc optstring s0 =
     (case getopt_front mem argc s0 of
        None \<Rightarrow> None
      | Some (Inl f) \<Rightarrow> Some (Inl f)
      | Some (Inr (Finished r s)) \<Rightarrow> Some (Inr (r, s))
      | Some (Inr (Optchar c s)) \<Rightarrow> Some (short_option mem argc optstring c s))"

section \<open>getopt_long\<close>

text \<open>Modelled from the spec: the header \<^verbatim>\<open>getopt.h\<close>, which declares \<^verbatim>\<open>struct option\<close>
  and the constants \<^verbatim>\<open>no_argument\<close>, \<^verbatim>\<open>required_argument\<close> and
  \<^verbatim>\<open>optional_argument\<close>, is missing. The spec gives a descriptor a name, an argument mode
  that is one of none, required and optional, an optional writable flag location and an
  associated value. The table is the list of the descriptors before the terminating entry
  (whose name is null).\<close>

datatype arg_mode = no_argument | required_argument | optional_argument

record long_option =
  name :: string
  has_arg :: arg_mode
  flag :: "nat option"
  val :: int

text \<open>The loop of lines 241--261 from descriptor \<open>i\<close> on: the matching descriptor's
  index and \<^verbatim>\<open>num_matches\<close>.\<close>

fun find_match ::
  "string \<Rightarrow> nat \<Rightarrow> long_option list \<Rightarrow> nat \<Rightarrow> nat option \<Rightarrow> int \<Rightarrow> nat option \<times> int" where
  "find_match current_argument argument_name_length [] i match num_matches =
     (match, num_matches)"
| "find_match current_argument argument_name_length (opt # opts) i match num_matches =
     (let option_length = length (name opt)
      in if option_length = argument_name_length
            \<and> strncmp_eq (name opt) current_argument option_length
         then (Some i, 1)
         else if strncmp_eq (name opt) current_argument argument_name_length then
           (if length (name opt) = argument_name_length then (Some i, 1)
            else find_match current_argument argument_name_length opts (i + 1)
                   (Some i) (num_matches + 1))
         else find_match current_argument argument_name_length opts (i + 1) match num_matches)"

text \<open>Lines 278--299: the argument of the matched descriptor.\<close>

definition long_argument ::
  "int \<Rightarrow> long_option \<Rightarrow> cptr \<Rightarrow> string \<Rightarrow> int \<Rightarrow> gstate \<Rightarrow> fault + int \<times> gstate" where
  "long_argument argc m p t retval s =
     (if has_arg m \<noteq> no_argument then
        (let s1 = s\<lparr>optarg := (case strchr t CHR ''='' of
                                 None \<Rightarrow> NULL
                               | Some k \<Rightarrow> ptr_add p (k + 1))\<rparr>
         in if has_arg m = required_argument then
              (case
                 (if optarg s1 = NULL then
                    (let s2 = s1\<lparr>optind := optind s1 + 1\<rparr>
                     in if optind s2 < argc then
                          (case rd (argv s2) (optind s2) of
                             Inl f \<Rightarrow> Inl f
                           | Inr q \<Rightarrow> Inr (s2\<lparr>optarg := q\<rparr>))
                        else Inr s2)
                  else Inr s1)
               of
                 Inl f \<Rightarrow> Inl f
               | Inr s3 \<Rightarrow> Inr (if optarg s3 = NULL then char_code CHR '':'' else retval, s3))
            else Inr (retval, s1))
      else if strchr t CHR ''='' \<noteq> None then Inr (char_code CHR ''?'', s)
      else Inr (retval, s))"

text \<open>Lines 266--274: the writes through \<^verbatim>\<open>longindex\<close> and through the flag of
  descriptor \<open>i\<close>, in this order.\<close>

definition long_writes :: "long_option list \<Rightarrow> nat option \<Rightarrow> nat \<Rightarrow> gstate \<Rightarrow> gstate" where
  "long_writes longopts longindex i s =
     (let m = longopts ! i;
          s1 = (case longindex of
                  None \<Rightarrow> s
                | Some a \<Rightarrow> s\<lparr>ints := (ints s)(a := int i)\<rparr>)
      in case flag m of
           None \<Rightarrow> s1
         | Some a \<Rightarrow> s1\<lparr>ints := (ints s1)(a := val m)\<rparr>)"

text \<open>Lines 263--299, with \<^verbatim>\<open>match\<close> pointing to descriptor \<open>i\<close>.\<close>

definition long_matched ::
  "int \<Rightarrow> long_option list \<Rightarrow> nat option \<Rightarrow> nat \<Rightarrow> cptr \<Rightarrow> string \<Rightarrow> gstate
     \<Rightarrow> fault + int \<times> gstate" where
  "long_matched argc longopts longindex i p t s =
     (let m = longopts ! i;
          s2 = long_writes longopts longindex i s;
          retval = (case flag m of None \<Rightarrow> val m | Some a \<Rightarrow> 0)
      in long_argument argc m p t retval s2)"

text \<open>Lines 239--313: the element at the scan index is \<open>p\<close>, with text \<open>t\<close>.\<close>

definition long_resolve ::
  "int \<Rightarrow> long_option list \<Rightarrow> nat option \<Rightarrow> cptr \<Rightarrow> string \<Rightarrow> gstate \<Rightarrow> fault + int \<times> gstate"
where
  "long_resolve argc longopts longindex p t s =
     (let current_argument = drop 2 t;
          argument_name_length = strcspn_eq current_argument
      in case
           (case find_match current_argument argument_name_length longopts 0 None 0 of
              (match, num_matches) \<Rightarrow>
                if num_matches = 1 then
                  (case match of
                     None \<Rightarrow> Inl NullDeref
                   | Some i \<Rightarrow> long_matched argc longopts longindex i p t s)
                else
                  Inr (char_code CHR ''?'',
                       if num_matches = 0 then
                         (if opterr s \<noteq> 0
                          then s\<lparr>stderr := stderr s @ [Unrecognized_option p]\<rparr> else s)
                       else
                         (if opterr s \<noteq> 0
                          then s\<lparr>stderr := stderr s @ [Ambiguous_option p]\<rparr> else s)))
         of
           Inl f \<Rightarrow> Inl f
         | Inr (retval, s1) \<Rightarrow> Inr (retval, s1\<lparr>optind := optind s1 + 1\<rparr>))"

text \<open>\<^verbatim>\<open>getopt_long\<close> up to line 235: the call has finished with -1, or hands the
  element over to \<^verbatim>\<open>getopt\<close>, or holds a long-option token.\<close>

datatype long_scan = Long_finished int gstate | Short_token gstate | Long_token cptr string gstate

definition getopt_long_front :: "memory \<Rightarrow> int \<Rightarrow> gstate \<Rightarrow> (fault + long_scan) option" where
  "getopt_long_front mem argc s0 =
     (let s = getopt_begin s0
      in if optind s \<ge> argc then Some (Inr (Long_finished (- 1) s))
         else
           (case permute mem argc s of
              None \<Rightarrow> None
            | Some (Inl f) \<Rightarrow> Some (Inl f)
            | Some (Inr (No_more s1)) \<Rightarrow> Some (Inr (Long_finished (- 1) (s1\<lparr>first := NULL\<rparr>)))
            | Some (Inr (Scan s1)) \<Rightarrow>
                (case rd (argv s1) (optind s1) of
                   Inl f \<Rightarrow> Some (Inl f)
                 | Inr p \<Rightarrow>
                     (case cstring mem p of
                        Inl f \<Rightarrow> Some (Inl f)
                      | Inr t \<Rightarrow>
                          if length t < 3 \<or> \<not> strncmp_eq t ''--'' 2 then Some (Inr (Short_token s1))
                          else Some (Inr (Long_token p t s1))))))"

definition getopt_long ::
  "memory \<Rightarrow> int \<Rightarrow> string \<Rightarrow> long_option list \<Rightarrow> nat option \<Rightarrow> gstate
     \<Rightarrow> (fault + int \<times> gstate) option" where
  "getopt_long mem argc optstring longopts longindex s0 =
     (case getopt_long_front mem argc s0 of
        None \<Rightarrow> None
      | Some (Inl f) \<Rightarrow> Some (Inl f)
      | Some (Inr (Long_finished r s)) \<Rightarrow> Some (Inr (r, s))
      | Some (Inr (Short_token s)) \<Rightarrow> getopt mem argc optstring s
      | Some (Inr (Long_token p t s)) \<Rightarrow> Some (long_resolve argc longopts longindex p t s))"

section \<open>Auxiliary notions\<close>

text \<open>\<open>reordered k av av'\<close>: the array \<open>av'\<close> holds the elements of \<open>av\<close>, as many as
  before, and the first \<open>k\<close> of them have not moved.\<close>

definition reordered :: "nat \<Rightarrow> cptr list \<Rightarrow> cptr list \<Rightarrow> bool" where
  "reordered k av av' = (mset av' = mset av \<and> length av' = length av \<and> take k av' = take k av)"

text \<open>The candidate name of a long-option token: what stands between the leading
  \<^verbatim>\<open>--\<close> and the first \<^verbatim>\<open>=\<close> (lines 239--240).\<close>

definition candidate_name :: "string \<Rightarrow> string" where
  "candidate_name t = takeWhile (\<lambda>c. c \<noteq> CHR ''='') (drop 2 t)"

text \<open>Concrete inputs: a memory whose block \<open>b\<close> holds the \<open>b\<close>-th of the given strings, and
  the argument vector whose element \<open>b\<close> points to the start of block \<open>b\<close>.\<close>

definition mem_of :: "string list \<Rightarrow> memory" where
  "mem_of ts b = (if b < length ts then ts ! b else [])"

definition argv_of :: "nat \<Rightarrow> cptr list" where
  "argv_of n = map (\<lambda>b. Ptr b 0) [0..<n]"

section \<open>Strings and pointers\<close>

lemma takeWhile_drop_commute:
  "k \<le> length (takeWhile P ys) \<Longrightarrow> takeWhile P (drop k ys) = drop k (takeWhile P ys)"
proof (induction ys arbitrary: k)
  case Nil
  then show ?case by simp
next
  case (Cons y ys)
  then show ?case by (cases k) (auto split: if_splits)
qed

lemma cstring_ptr_add:
  assumes "cstring mem p = Inr t" and "k \<le> length t"
  shows "cstring mem (ptr_add p k) = Inr (drop k t)"
proof (cases p)
  case NULL
  with assms show ?thesis by simp
next
  case (Ptr b i)
  with assms have i: "i \<le> length (mem b)"
    and t: "t = takeWhile (\<lambda>c. c \<noteq> NUL) (drop i (mem b))"
    by (auto split: if_splits)
  have "length t \<le> length (drop i (mem b))"
    unfolding t by (rule length_takeWhile_le)
  with assms(2) i have "i + k \<le> length (mem b)" by simp
  moreover have "takeWhile (\<lambda>c. c \<noteq> NUL) (drop (i + k) (mem b)) = drop k t"
    using takeWhile_drop_commute [of k "\<lambda>c. c \<noteq> NUL" "drop i (mem b)"] assms(2)
    unfolding t by (simp add: add.commute)
  ultimately show ?thesis using Ptr by simp
qed

lemma deref_cstring:
  "cstring mem p = Inr t \<Longrightarrow> deref mem p = Inr (case t of [] \<Rightarrow> NUL | c # cs \<Rightarrow> c)"
  by (auto simp: deref_def char_at_def split: list.splits)

lemma deref_ptr_add:
  assumes "cstring mem p = Inr t" and "k \<le> length t"
  shows "deref mem (ptr_add p k) = Inr (if k < length t then t ! k else NUL)"
  using cstring_ptr_add [OF assms] assms(2)
  by (auto simp: deref_def char_at_def hd_drop_conv_nth split: list.splits)

section \<open>Rotation and the two loops\<close>

lemma rotate_decomp:
  assumes "rotate av b n = Inr av'" and "1 < n"
  shows "\<exists>pre x mid post. av = pre @ x # mid @ post \<and> av' = pre @ mid @ x # post
           \<and> length pre = nat b \<and> length mid = nat n - 1"
proof -
  from assms have b: "0 \<le> b" and len: "nat (b + n) \<le> length av"
    and av': "av' = take (nat b) av @ take (nat n - 1) (drop (nat b + 1) av)
                @ [av ! nat b] @ drop (nat (b + n)) av"
    by (auto simp: rotate_def split: if_splits)
  let ?pre = "take (nat b) av" and ?x = "av ! nat b"
  let ?mid = "take (nat n - 1) (drop (nat b + 1) av)" and ?post = "drop (nat (b + n)) av"
  from b len assms(2) have lt: "nat b < length av" by linarith
  have eq: "nat n - 1 + (nat b + 1) = nat (b + n)" using b assms(2) by linarith
  have "drop (nat b + 1) av = ?mid @ drop (nat n - 1) (drop (nat b + 1) av)"
    by (rule append_take_drop_id [symmetric])
  also have "drop (nat n - 1) (drop (nat b + 1) av) = ?post"
    by (simp only: drop_drop eq)
  finally have d: "drop (nat b + 1) av = ?mid @ ?post" .
  have "av = ?pre @ ?x # drop (Suc (nat b)) av" using lt by (rule id_take_nth_drop)
  with d have 1: "av = ?pre @ ?x # ?mid @ ?post" by simp
  have 2: "length ?pre = nat b" using lt by simp
  have 3: "length ?mid = nat n - 1" using len eq by simp
  show ?thesis
  proof (intro exI conjI)
    show "av = ?pre @ ?x # ?mid @ ?post" by (rule 1)
    show "av' = ?pre @ ?mid @ ?x # ?post" using av' by simp
    show "length ?pre = nat b" by (rule 2)
    show "length ?mid = nat n - 1" by (rule 3)
  qed
qed

lemma reordered_refl: "reordered k av av"
  by (simp add: reordered_def)

lemma reordered_trans: "reordered k a b \<Longrightarrow> reordered k b c \<Longrightarrow> reordered k a c"
  by (simp add: reordered_def)

lemma reordered_le:
  assumes "reordered k a b" and "j \<le> k"
  shows "reordered j a b"
proof -
  from assms(1) have "take j (take k b) = take j (take k a)"
    by (simp only: reordered_def)
  with assms(2) have "take j b = take j a" by (simp add: min_def)
  with assms(1) show ?thesis by (simp add: reordered_def)
qed

lemma rotate_reordered:
  assumes "rotate av b n = Inr av'"
  shows "reordered (nat b) av av'"
proof (cases "1 < n")
  case True
  from rotate_decomp [OF assms True] obtain pre x mid post where
    "av = pre @ x # mid @ post" "av' = pre @ mid @ x # post" "length pre = nat b"
    by blast
  then show ?thesis unfolding reordered_def by simp
next
  case False
  with assms show ?thesis by (simp add: rotate_def reordered_def)
qed

lemma permute_loop_reordered:
  assumes "permute_loop mem anchor oi argc av = Some r"
  shows "r = Inr av' \<Longrightarrow> reordered (nat oi) av av'"
proof (induction arbitrary: av' rule: permute_loop.raw_induct [OF _ assms])
  case (1 loop mem anchor oi argc av r)
  from "1.prems" "1.hyps" obtain av1 p c where
    rot: "rotate av oi (argc - oi) = Inr av1" and
    rest: "(if c \<noteq> CHR ''-'' \<and> p \<noteq> anchor then loop mem anchor oi argc av1
            else Some (Inr av1)) = Some (Inr av')"
    by (auto split: sum.splits)
  have a: "reordered (nat oi) av av1" using rot by (rule rotate_reordered)
  show ?case
  proof (cases "c \<noteq> CHR ''-'' \<and> p \<noteq> anchor")
    case True
    with rest have "loop mem anchor oi argc av1 = Some (Inr av')" by simp
    then have "reordered (nat oi) av1 av'" by (rule "1.IH") simp
    with a show ?thesis by (rule reordered_trans)
  next
    case False
    with rest a show ?thesis by simp
  qed
qed

lemma permute_loop_exit:
  assumes "permute_loop mem anchor oi argc av = Some r"
  shows "r = Inr av' \<Longrightarrow>
    \<exists>p c. rd av' oi = Inr p \<and> deref mem p = Inr c \<and> (c = CHR ''-'' \<or> p = anchor)"
proof (induction arbitrary: av' rule: permute_loop.raw_induct [OF _ assms])
  case (1 loop mem anchor oi argc av r)
  from "1.prems" "1.hyps" obtain av1 p c where
    rd: "rd av1 oi = Inr p" and de: "deref mem p = Inr c" and
    rest: "(if c \<noteq> CHR ''-'' \<and> p \<noteq> anchor then loop mem anchor oi argc av1
            else Some (Inr av1)) = Some (Inr av')"
    by (auto split: sum.splits)
  show ?case
  proof (cases "c \<noteq> CHR ''-'' \<and> p \<noteq> anchor")
    case True
    with rest have "loop mem anchor oi argc av1 = Some (Inr av')" by simp
    then show ?thesis by (rule "1.IH") simp
  next
    case False
    with rest rd de show ?thesis by auto
  qed
qed

lemma anchor_loop_reordered:
  assumes "anchor_loop anchor oi argc av = Some r"
  shows "r = Inr av' \<Longrightarrow> reordered (nat oi) av av'"
proof (induction arbitrary: av' rule: anchor_loop.raw_induct [OF _ assms])
  case (1 loop anchor oi argc av r)
  from "1.prems" "1.hyps" obtain av1 p where
    rot: "rotate av oi (argc - oi) = Inr av1" and
    rest: "(if p \<noteq> anchor then loop anchor oi argc av1 else Some (Inr av1)) = Some (Inr av')"
    by (auto split: sum.splits)
  have a: "reordered (nat oi) av av1" using rot by (rule rotate_reordered)
  show ?case
  proof (cases "p \<noteq> anchor")
    case True
    with rest have "loop anchor oi argc av1 = Some (Inr av')" by simp
    then have "reordered (nat oi) av1 av'" by (rule "1.IH") simp
    with a show ?thesis by (rule reordered_trans)
  next
    case False
    with rest a show ?thesis by simp
  qed
qed

section \<open>The permutation step\<close>

text \<open>The five ways through lines 79--97.\<close>

lemma permute_cases:
  assumes "permute mem argc s = Some (Inr e)"
  obtains
    (null) "rd (argv s) (optind s) = Inr NULL" "e = No_more s"
  | (dash) p where "rd (argv s) (optind s) = Inr p" "deref mem p = Inr CHR ''-''" "e = Scan s"
  | (single) p c where "rd (argv s) (optind s) = Inr p" "deref mem p = Inr c" "c \<noteq> CHR ''-''"
      "argc - optind s \<le> 1" "e = No_more s"
  | (cycle) p c a av where "rd (argv s) (optind s) = Inr p" "deref mem p = Inr c" "c \<noteq> CHR ''-''"
      "1 < argc - optind s" "a = (if first s = NULL then p else first s)"
      "permute_loop mem a (optind s) argc (argv s) = Some (Inr av)"
      "rd av (optind s) = Inr a" "e = No_more (s\<lparr>first := a, argv := av\<rparr>)"
  | (found) p c a av q where "rd (argv s) (optind s) = Inr p" "deref mem p = Inr c" "c \<noteq> CHR ''-''"
      "1 < argc - optind s" "a = (if first s = NULL then p else first s)"
      "permute_loop mem a (optind s) argc (argv s) = Some (Inr av)"
      "rd av (optind s) = Inr q" "q \<noteq> a" "deref mem q = Inr CHR ''-''"
      "e = Scan (s\<lparr>first := a, argv := av\<rparr>)"
proof -
  from assms obtain p where p: "rd (argv s) (optind s) = Inr p"
    by (auto simp: permute_def split: sum.splits)
  show ?thesis
  proof (cases "p = NULL")
    case True
    with assms p null show ?thesis by (simp add: permute_def)
  next
    case False
    with assms p obtain c where c: "deref mem p = Inr c"
      by (auto simp: permute_def split: sum.splits)
    show ?thesis
    proof (cases "c = CHR ''-''")
      case True
      with assms p c False dash show ?thesis by (simp add: permute_def)
    next
      case nodash: False
      show ?thesis
      proof (cases "argc - optind s \<le> 1")
        case True
        with assms p c False nodash single show ?thesis by (simp add: permute_def)
      next
        case many: False
        define a where "a = (if first s = NULL then p else first s)"
        have s1: "(if first s = NULL then s\<lparr>first := p\<rparr> else s) = s\<lparr>first := a\<rparr>"
          by (simp add: a_def)
        from assms p c False nodash many
        have body: "(case permute_loop mem a (optind s) argc (argv s) of
                 None \<Rightarrow> None
               | Some (Inl f) \<Rightarrow> Some (Inl f)
               | Some (Inr av) \<Rightarrow>
                   (case rd av (optind s) of
                      Inl f \<Rightarrow> Some (Inl f)
                    | Inr q \<Rightarrow>
                        if q = a then Some (Inr (No_more (s\<lparr>first := a, argv := av\<rparr>)))
                        else Some (Inr (Scan (s\<lparr>first := a, argv := av\<rparr>))))) = Some (Inr e)"
          by (simp add: permute_def Let_def s1 cong: option.case_cong sum.case_cong)
        then have "\<exists>av q. permute_loop mem a (optind s) argc (argv s) = Some (Inr av)
          \<and> rd av (optind s) = Inr q
          \<and> (if q = a then Some (Inr (No_more (s\<lparr>first := a, argv := av\<rparr>)))
                        else Some (Inr (Scan (s\<lparr>first := a, argv := av\<rparr>)))) = Some (Inr e)"
          by (force split: option.splits sum.splits)
        then obtain av q where l: "permute_loop mem a (optind s) argc (argv s) = Some (Inr av)"
          and q: "rd av (optind s) = Inr q"
          and e: "(if q = a then Some (Inr (No_more (s\<lparr>first := a, argv := av\<rparr>)))
                        else Some (Inr (Scan (s\<lparr>first := a, argv := av\<rparr>)))) = Some (Inr e)"
          by blast
        show ?thesis
        proof (cases "q = a")
          case True
          with e have "e = No_more (s\<lparr>first := a, argv := av\<rparr>)" by simp
          with p c nodash many l q True a_def cycle show ?thesis by simp
        next
          case qa: False
          with e have e': "e = Scan (s\<lparr>first := a, argv := av\<rparr>)" by simp
          from permute_loop_exit [OF l refl] q qa have "deref mem q = Inr CHR ''-''" by auto
          with p c nodash many l q qa a_def e' found show ?thesis by simp
        qed
      qed
    qed
  qed
qed

lemma permute_reordered:
  assumes "permute mem argc s = Some (Inr e)"
  shows "\<exists>a av. (e = No_more (s\<lparr>first := a, argv := av\<rparr>) \<or> e = Scan (s\<lparr>first := a, argv := av\<rparr>))
           \<and> reordered (nat (optind s)) (argv s) av"
proof -
  have triv: "s = s\<lparr>first := first s, argv := argv s\<rparr>" by simp
  from assms show ?thesis
  proof (cases rule: permute_cases)
    case null
    with triv show ?thesis using reordered_refl by blast
  next
    case (dash p)
    with triv show ?thesis using reordered_refl by blast
  next
    case (single p c)
    with triv show ?thesis using reordered_refl by blast
  next
    case (cycle p c a av)
    from permute_loop_reordered [OF cycle(6) refl] cycle(8) show ?thesis by blast
  next
    case (found p c a av q)
    from permute_loop_reordered [OF found(6) refl] found(10) show ?thesis by blast
  qed
qed

section \<open>The state in which an option is processed\<close>

lemma getopt_begin_fields:
  "optarg (getopt_begin s) = NULL" "opterr (getopt_begin s) = 0" "optopt (getopt_begin s) = 0"
  "optind (getopt_begin s) = max 1 (optind s)" "optcursor (getopt_begin s) = optcursor s"
  "first (getopt_begin s) = first s" "argv (getopt_begin s) = argv s"
  "ints (getopt_begin s) = ints s" "stderr (getopt_begin s) = stderr s"
  by (simp_all add: getopt_begin_def Let_def)

lemma long_token_facts:
  assumes "getopt_long_front mem argc s0 = Some (Inr (Long_token p t s))"
  shows "rd (argv s) (optind s) = Inr p \<and> cstring mem p = Inr t \<and> 3 \<le> length t
     \<and> take 2 t = ''--'' \<and> optind s < argc \<and> optind s = max 1 (optind s0)
     \<and> opterr s = 0 \<and> optarg s = NULL \<and> ints s = ints s0 \<and> stderr s = stderr s0
     \<and> optcursor s = optcursor s0
     \<and> reordered (nat (max 1 (optind s0))) (argv s0) (argv s)"
proof -
  let ?b = "getopt_begin s0"
  from assms have lt: "optind ?b < argc"
    by (auto simp: getopt_long_front_def Let_def split: if_splits)
  with assms obtain e where e: "permute mem argc ?b = Some (Inr e)"
    by (auto simp: getopt_long_front_def Let_def split: option.splits sum.splits)
  with assms lt obtain s1 where s1: "e = Scan s1"
    by (cases e) (auto simp: getopt_long_front_def Let_def)
  from assms lt e s1 have
    tok: "rd (argv s1) (optind s1) = Inr p \<and> cstring mem p = Inr t \<and> \<not> length t < 3
      \<and> strncmp_eq t ''--'' 2 \<and> s = s1"
    by (auto simp: getopt_long_front_def Let_def split: sum.splits if_splits)
  from permute_reordered [OF e] s1 obtain a av where
    "s1 = ?b\<lparr>first := a, argv := av\<rparr>" "reordered (nat (optind ?b)) (argv ?b) av"
    by auto
  with tok lt show ?thesis
    by (simp add: getopt_begin_fields strncmp_eq_def)
qed

section \<open>The lookup in the long-option table\<close>

lemma candidate_name_take:
  "take (strcspn_eq (drop 2 t)) (drop 2 t) = candidate_name t"
  unfolding candidate_name_def strcspn_eq_def by (rule takeWhile_eq_take [symmetric])

lemma length_candidate_name: "length (candidate_name t) = strcspn_eq (drop 2 t)"
  by (simp add: candidate_name_def strcspn_eq_def)

lemma exact_test:
  "(length nm = strcspn_eq (drop 2 t) \<and> strncmp_eq nm (drop 2 t) (length nm)) = (nm = candidate_name t)"
  using candidate_name_take [of t] length_candidate_name [of t]
  by (auto simp: strncmp_eq_def)

lemma prefix_test:
  "strncmp_eq nm (drop 2 t) (strcspn_eq (drop 2 t)) = prefix (candidate_name t) nm"
proof -
  have "prefix (candidate_name t) nm = (take (length (candidate_name t)) nm = candidate_name t)"
    by (metis prefix_def append_eq_conv_conj append_take_drop_id)
  then show ?thesis
    by (simp add: strncmp_eq_def candidate_name_take length_candidate_name)
qed

lemma find_match_step:
  "find_match (drop 2 t) (strcspn_eq (drop 2 t)) (opt # opts) i m k =
     (if name opt = candidate_name t then (Some i, 1)
      else if prefix (candidate_name t) (name opt)
           then find_match (drop 2 t) (strcspn_eq (drop 2 t)) opts (i + 1) (Some i) (k + 1)
           else find_match (drop 2 t) (strcspn_eq (drop 2 t)) opts (i + 1) m k)"
  using exact_test [of "name opt" t] prefix_test [of "name opt" t]
  by (auto simp: Let_def)

lemma find_match_exact:
  assumes "j < length opts" and "name (opts ! j) = candidate_name t"
    and "\<forall>l<j. name (opts ! l) \<noteq> candidate_name t"
  shows "find_match (drop 2 t) (strcspn_eq (drop 2 t)) opts i m k = (Some (i + j), 1)"
  using assms
proof (induction opts arbitrary: i j m k)
  case Nil
  then show ?case by simp
next
  case (Cons opt opts)
  show ?case
  proof (cases j)
    case 0
    with Cons.prems show ?thesis by (simp add: find_match_step del: find_match.simps(2))
  next
    case (Suc j')
    with Cons.prems have ne: "name opt \<noteq> candidate_name t" by auto
    from Suc Cons.prems have a: "j' < length opts" "name (opts ! j') = candidate_name t"
      "\<forall>l<j'. name (opts ! l) \<noteq> candidate_name t" by auto
    from Cons.IH [OF a] ne Suc show ?thesis by (simp add: find_match_step del: find_match.simps(2))
  qed
qed

lemma find_match_count:
  assumes "\<forall>opt\<in>set opts. name opt \<noteq> candidate_name t"
  shows "snd (find_match (drop 2 t) (strcspn_eq (drop 2 t)) opts i m k)
          = k + int (length (filter (\<lambda>opt. prefix (candidate_name t) (name opt)) opts))"
  using assms by (induction opts arbitrary: i m k) (simp_all add: find_match_step del: find_match.simps(2))

lemma find_match_none:
  assumes "\<forall>opt\<in>set opts. \<not> prefix (candidate_name t) (name opt)"
  shows "find_match (drop 2 t) (strcspn_eq (drop 2 t)) opts i m k = (m, k)"
  using assms by (induction opts arbitrary: i) (auto simp add: find_match_step simp del: find_match.simps(2))

lemma find_match_unique:
  assumes "\<forall>opt\<in>set opts. name opt \<noteq> candidate_name t"
    and "j < length opts" and "prefix (candidate_name t) (name (opts ! j))"
    and "\<forall>l<length opts. l \<noteq> j \<longrightarrow> \<not> prefix (candidate_name t) (name (opts ! l))"
  shows "find_match (drop 2 t) (strcspn_eq (drop 2 t)) opts i m k = (Some (i + j), k + 1)"
  using assms
proof (induction opts arbitrary: i j m k)
  case Nil
  then show ?case by simp
next
  case (Cons opt opts)
  show ?case
  proof (cases j)
    case 0
    with Cons.prems(4) have "\<forall>l<length opts. \<not> prefix (candidate_name t) (name (opts ! l))"
      by auto
    then have "\<forall>opt\<in>set opts. \<not> prefix (candidate_name t) (name opt)"
      by (auto simp: in_set_conv_nth)
    from find_match_none [OF this] 0 Cons.prems(1,3) show ?thesis
      by (simp add: find_match_step del: find_match.simps(2))
  next
    case (Suc j')
    from Cons.prems(4) Suc have np: "\<not> prefix (candidate_name t) (name opt)" by auto
    from Cons.prems Suc have a: "\<forall>opt\<in>set opts. name opt \<noteq> candidate_name t" "j' < length opts"
      "prefix (candidate_name t) (name (opts ! j'))" by auto
    have b: "\<forall>l<length opts. l \<noteq> j' \<longrightarrow> \<not> prefix (candidate_name t) (name (opts ! l))"
    proof (intro allI impI)
      fix l assume "l < length opts" "l \<noteq> j'"
      with Cons.prems(4) [rule_format, of "Suc l"] Suc
      show "\<not> prefix (candidate_name t) (name (opts ! l))" by simp
    qed
    from Cons.IH [OF a b] np Cons.prems(1) Suc show ?thesis by (simp add: find_match_step del: find_match.simps(2))
  qed
qed

section \<open>From the lookup to the result of the call\<close>

lemma strchr_None: "c \<noteq> NUL \<Longrightarrow> (strchr s c = None) = (c \<notin> set s)"
  by (induction s) auto

lemma long_writes_fields:
  "optarg (long_writes lo li i s) = optarg s" "optopt (long_writes lo li i s) = optopt s"
  "optind (long_writes lo li i s) = optind s" "opterr (long_writes lo li i s) = opterr s"
  "optcursor (long_writes lo li i s) = optcursor s" "first (long_writes lo li i s) = first s"
  "argv (long_writes lo li i s) = argv s" "stderr (long_writes lo li i s) = stderr s"
  by (simp_all add: long_writes_def Let_def split: option.splits)

lemma getopt_long_token:
  "getopt_long_front mem argc s0 = Some (Inr (Long_token p t s)) \<Longrightarrow>
   getopt_long mem argc optstring longopts longindex s0
     = Some (long_resolve argc longopts longindex p t s)"
  by (simp add: getopt_long_def)

lemma long_resolve_matched:
  "find_match (drop 2 t) (strcspn_eq (drop 2 t)) longopts 0 None 0 = (Some i, 1) \<Longrightarrow>
   long_resolve argc longopts longindex p t s
     = (case long_matched argc longopts longindex i p t s of
          Inl f \<Rightarrow> Inl f
        | Inr (retval, s1) \<Rightarrow> Inr (retval, s1\<lparr>optind := optind s1 + 1\<rparr>))"
  by (simp add: long_resolve_def)

lemma long_resolve_unmatched:
  assumes "snd (find_match (drop 2 t) (strcspn_eq (drop 2 t)) longopts 0 None 0) \<noteq> 1"
    and "opterr s = 0"
  shows "long_resolve argc longopts longindex p t s
     = Inr (char_code CHR ''?'', s\<lparr>optind := optind s + 1\<rparr>)"
proof -
  obtain m n where fm: "find_match (drop 2 t) (strcspn_eq (drop 2 t)) longopts 0 None 0 = (m, n)"
    by (cases "find_match (drop 2 t) (strcspn_eq (drop 2 t)) longopts 0 None 0")
  with assms(1) have "n \<noteq> 1" by simp
  with assms(2) fm show ?thesis by (simp add: long_resolve_def Let_def)
qed

text \<open>When the element at the scan index is a long-option token already, nothing is moved
  and the token is that element.\<close>

lemma long_token_at_index:
  assumes "1 \<le> optind s0" and "optind s0 < argc"
    and "rd (argv s0) (optind s0) = Inr p" and "cstring mem p = Inr t"
    and "3 \<le> length t" and "take 2 t = ''--''"
  shows "getopt_long_front mem argc s0 = Some (Inr (Long_token p t (getopt_begin s0)))"
proof -
  let ?b = "getopt_begin s0"
  have b: "optind ?b = optind s0" "argv ?b = argv s0"
    using assms(1) by (simp_all add: getopt_begin_fields)
  from assms(5,6) obtain cs where t: "t = CHR ''-'' # cs" by (cases t) auto
  with assms(4) have d: "deref mem p = Inr CHR ''-''" and n: "p \<noteq> NULL"
    using deref_cstring [of mem p t] by auto
  have "permute mem argc ?b = Some (Inr (Scan ?b))"
    using b assms(3) d n by (simp add: permute_def)
  then show ?thesis
    using b assms by (simp add: getopt_long_front_def Let_def strncmp_eq_def)
qed

section \<open>The state in which a short option is processed\<close>

lemma short_cursor_Optchar:
  assumes "short_cursor mem argc s = Some (Inr (Optchar c s'))"
  shows "\<exists>cur. s' = s\<lparr>optcursor := cur, optopt := char_code c\<rparr> \<and> deref mem cur = Inr c"
proof -
  from assms obtain p t where p: "rd (argv s) (optind s) = Inr p" and t: "cstring mem p = Inr t"
    by (auto simp: short_cursor_def split: sum.splits)
  from assms p t have nd: "t \<noteq> ''-''" "t \<noteq> ''--''"
    by (auto simp: short_cursor_def Let_def split: if_splits option.splits sum.splits)
  define e where "e = (if optcursor s = NULL then Inr NUL else deref mem (optcursor s))"
  from assms p t nd obtain x where x: "e = Inr x"
    by (auto simp: short_cursor_def Let_def e_def split: sum.splits)
  define cur where "cur = (if x = NUL then ptr_add p 1 else optcursor s)"
  have s1: "(if x = NUL then s\<lparr>optcursor := ptr_add p 1\<rparr> else s) = s\<lparr>optcursor := cur\<rparr>"
    by (simp add: cur_def)
  from assms p t nd x have
    "(case deref mem cur of
        Inl f \<Rightarrow> Some (Inl f)
      | Inr c \<Rightarrow> Some (Inr (Optchar c (s\<lparr>optcursor := cur, optopt := char_code c\<rparr>))))
       = Some (Inr (Optchar c s'))"
    unfolding short_cursor_def e_def [symmetric]
    by (simp add: Let_def s1 cong: sum.case_cong)
  then have "deref mem cur = Inr c \<and> s' = s\<lparr>optcursor := cur, optopt := char_code c\<rparr>"
    by (auto split: sum.splits)
  then show ?thesis by blast
qed

lemma short_cursor_Finished:
  assumes "short_cursor mem argc s = Some (Inr (Finished r s'))" and "0 \<le> optind s"
  shows "r = - 1 \<and> optcursor s' = NULL \<and> first s' = NULL
       \<and> reordered (nat (optind s)) (argv s) (argv s')
       \<and> ints s' = ints s \<and> stderr s' = stderr s"
proof -
  from assms obtain p t where p: "rd (argv s) (optind s) = Inr p" and t: "cstring mem p = Inr t"
    by (auto simp: short_cursor_def split: sum.splits)
  show ?thesis
  proof (cases "t = ''-''")
    case True
    with assms p t show ?thesis
      by (auto simp: short_cursor_def no_more_optchars_def reordered_refl)
  next
    case nd: False
    show ?thesis
    proof (cases "t = ''--''")
      case True
      show ?thesis
      proof (cases "first s = NULL")
        case True
        with assms p t \<open>t = ''--''\<close> show ?thesis
          by (auto simp: short_cursor_def no_more_optchars_def reordered_refl Let_def)
      next
        case False
        with assms p t \<open>t = ''--''\<close> obtain av where
          l: "anchor_loop (first s) (optind s + 1) argc (argv s) = Some (Inr av)"
          and s': "Finished r s' = Finished (- 1) (no_more_optchars (s\<lparr>optind := optind s + 1, argv := av\<rparr>))"
          by (auto simp: short_cursor_def Let_def split: option.splits sum.splits)
        from anchor_loop_reordered [OF l refl] have "reordered (nat (optind s + 1)) (argv s) av" .
        then have "reordered (nat (optind s)) (argv s) av"
          by (rule reordered_le) (use assms(2) in simp)
        with s' show ?thesis by (simp add: no_more_optchars_def)
      qed
    next
      case False
      with assms p t nd show ?thesis
        by (auto simp: short_cursor_def Let_def split: sum.splits)
    qed
  qed
qed

lemma getopt_front_entry:
  assumes "getopt_front mem argc s0 = Some (Inr r)"
  shows "(optind (getopt_begin s0) \<ge> argc \<and> r = Finished (- 1) (no_more_optchars (getopt_begin s0)))
       \<or> (optind (getopt_begin s0) < argc \<and>
           (\<exists>e. permute mem argc (getopt_begin s0) = Some (Inr e) \<and>
             (case e of No_more s1 \<Rightarrow> r = Finished (- 1) (no_more_optchars s1)
                      | Scan s1 \<Rightarrow> short_cursor mem argc s1 = Some (Inr r))))"
  using assms
  by (auto simp: getopt_front_def Let_def split: if_splits option.splits sum.splits entry.splits)

lemma optchar_facts:
  assumes "getopt_front mem argc s0 = Some (Inr (Optchar c s))"
  shows "opterr s = 0 \<and> optarg s = NULL \<and> ints s = ints s0 \<and> stderr s = stderr s0
       \<and> optind s = max 1 (optind s0) \<and> optind s < argc \<and> deref mem (optcursor s) = Inr c
       \<and> optopt s = char_code c
       \<and> reordered (nat (max 1 (optind s0))) (argv s0) (argv s)"
proof -
  let ?b = "getopt_begin s0"
  from getopt_front_entry [OF assms] obtain e where lt: "optind ?b < argc"
    and e: "permute mem argc ?b = Some (Inr e)"
    and c: "case e of No_more s1 \<Rightarrow> Optchar c s = Finished (- 1) (no_more_optchars s1)
                      | Scan s1 \<Rightarrow> short_cursor mem argc s1 = Some (Inr (Optchar c s))"
    by auto
  from c obtain s1 where s1: "e = Scan s1" and sc: "short_cursor mem argc s1 = Some (Inr (Optchar c s))"
    by (cases e) auto
  from permute_reordered [OF e] s1 obtain a av where
    a: "s1 = ?b\<lparr>first := a, argv := av\<rparr>" "reordered (nat (optind ?b)) (argv ?b) av"
    by auto
  from short_cursor_Optchar [OF sc] obtain cur where
    "s = s1\<lparr>optcursor := cur, optopt := char_code c\<rparr>" "deref mem cur = Inr c" by blast
  with a lt show ?thesis by (simp add: getopt_begin_fields)
qed

lemma finished_facts:
  assumes "getopt_front mem argc s0 = Some (Inr (Finished r s))"
  shows "r = - 1 \<and> optcursor s = NULL \<and> first s = NULL
       \<and> ints s = ints s0 \<and> stderr s = stderr s0
       \<and> reordered (nat (max 1 (optind s0))) (argv s0) (argv s)"
proof -
  let ?b = "getopt_begin s0"
  from getopt_front_entry [OF assms] consider
    (past) "r = - 1" "s = no_more_optchars ?b"
    | (perm) e where "permute mem argc ?b = Some (Inr e)"
       "case e of No_more s1 \<Rightarrow> Finished r s = Finished (- 1) (no_more_optchars s1)
                      | Scan s1 \<Rightarrow> short_cursor mem argc s1 = Some (Inr (Finished r s))"
    by auto
  then show ?thesis
  proof cases
    case past
    then show ?thesis by (simp add: no_more_optchars_def getopt_begin_fields reordered_refl)
  next
    case (perm e)
    from permute_reordered [OF perm(1)] obtain a av where
      e: "e = No_more (?b\<lparr>first := a, argv := av\<rparr>) \<or> e = Scan (?b\<lparr>first := a, argv := av\<rparr>)"
      and re: "reordered (nat (optind ?b)) (argv ?b) av"
      by auto
    from e show ?thesis
    proof
      assume "e = No_more (?b\<lparr>first := a, argv := av\<rparr>)"
      with perm(2) re show ?thesis by (simp add: no_more_optchars_def getopt_begin_fields)
    next
      assume s1: "e = Scan (?b\<lparr>first := a, argv := av\<rparr>)"
      with perm(2) have "short_cursor mem argc (?b\<lparr>first := a, argv := av\<rparr>) = Some (Inr (Finished r s))"
        by simp
      from short_cursor_Finished [OF this] re show ?thesis
        using reordered_trans [of "nat (max 1 (optind s0))" "argv s0" av "argv s"]
        by (simp add: getopt_begin_fields)
    qed
  qed
qed

text \<open>When the element at the scan index is a cluster of short options and no cluster is
  being scanned, the option character is the one after the leading \<^verbatim>\<open>-\<close>.\<close>

lemma optchar_at_index:
  assumes "1 \<le> optind s0" and "optind s0 < argc"
    and "rd (argv s0) (optind s0) = Inr p" and "cstring mem p = Inr (CHR ''-'' # c # cs)"
    and "c # cs \<noteq> ''-''" and "optcursor s0 = NULL"
  shows "getopt_front mem argc s0
           = Some (Inr (Optchar c ((getopt_begin s0)\<lparr>optcursor := ptr_add p 1,
                                                   optopt := char_code c\<rparr>)))"
proof -
  let ?b = "getopt_begin s0"
  have b: "optind ?b = optind s0" "argv ?b = argv s0" "optcursor ?b = NULL"
    using assms(1,6) by (simp_all add: getopt_begin_fields)
  from assms(4) have d: "deref mem p = Inr CHR ''-''" and n: "p \<noteq> NULL"
    using deref_cstring [of mem p "CHR ''-'' # c # cs"] by auto
  have c: "deref mem (ptr_add p 1) = Inr c"
    using deref_ptr_add [OF assms(4), of 1] by simp
  have "permute mem argc ?b = Some (Inr (Scan ?b))"
    using b assms(3) d n by (simp add: permute_def)
  moreover
  define t where "t = CHR ''-'' # c # cs"
  have t: "cstring mem p = Inr t" "t \<noteq> ''-''" "t \<noteq> ''--''"
    using assms(4,5) by (simp_all add: t_def)
  have "short_cursor mem argc ?b
      = Some (Inr (Optchar c (?b\<lparr>optcursor := ptr_add p 1, optopt := char_code c\<rparr>)))"
    using b assms(3) t c by (simp add: short_cursor_def Let_def)
  ultimately show ?thesis
    using b assms(2) by (simp add: getopt_front_def Let_def)
qed

section \<open>A required value taken from the next element\<close>

text \<open>
  C5. With the specification \<^verbatim>\<open>"o:"\<close> and the argument sequence
  \<^verbatim>\<open>[prog, "-o", "val"]\<close> (\<^verbatim>\<open>argc\<close> is 3; the array may go on, with the null pointer that
  ends it), the scan index at 1 and no cluster being scanned, one call of \<^verbatim>\<open>getopt\<close>
  returns the character \<^verbatim>\<open>o\<close>, leaves \<^verbatim>\<open>optarg\<close> at the next element, whose text is
  \<^verbatim>\<open>val\<close>, and moves the scan index by 2, from 1 to 3.
\<close>

theorem getopt_value_from_next_element:
  assumes "argv s = p0 # p1 # p2 # post"
    and "cstring mem p1 = Inr ''-o''" and "cstring mem p2 = Inr ''val''"
    and "optind s = 1" and "optcursor s = NULL"
  shows "\<exists>s'. getopt mem 3 ''o:'' s = Some (Inr (char_code CHR ''o'', s'))
           \<and> optarg s' = p2 \<and> cstring mem (optarg s') = Inr ''val''
           \<and> optind s' = optind s + 2 \<and> optind s' = 3"
proof -
  have p1: "p1 \<noteq> NULL" using assms(2) by auto
  have d0: "deref mem p1 = Inr CHR ''-''"
    using deref_cstring [OF assms(2)] by simp
  have d1: "deref mem (ptr_add p1 1) = Inr CHR ''o''"
    using deref_ptr_add [OF assms(2), of 1] by simp
  have d2: "deref mem (ptr_add (ptr_add p1 1) 1) = Inr NUL"
    using deref_ptr_add [OF assms(2), of 2] by (cases p1) simp_all
  show ?thesis
    using assms p1 d0 d1 d2
    by (simp add: getopt_def getopt_front_def getopt_begin_def permute_def short_cursor_def
        rd_def short_option_def short_argument_def short_advance_def char_at_def Let_def)
qed

theorem getopt_value_from_next_element_witness:
  "getopt (mem_of [''prog'', ''-o'', ''val'']) 3 ''o:'' (init_state (argv_of 3))
     = Some (Inr (111,
         \<lparr>optarg = Ptr 2 0, optopt = 111, optind = 3, opterr = 0, optcursor = NULL,
          first = NULL, argv = [Ptr 0 0, Ptr 1 0, Ptr 2 0], ints = (\<lambda>_. 0), stderr = []\<rparr>))"
proof -
  let ?mem = "mem_of [''prog'', ''-o'', ''val'']"
  let ?s = "init_state (argv_of 3)"
  have av: "argv_of 3 = [Ptr 0 0, Ptr 1 0, Ptr 2 0]"
    by (simp add: argv_of_def upt_rec)
  have a: "argv ?s = Ptr 0 0 # Ptr 1 0 # Ptr 2 0 # []" by (simp add: init_state_def av)
  have b: "cstring ?mem (Ptr 1 0) = Inr ''-o''" by (simp add: mem_of_def)
  have c: "cstring ?mem (Ptr 2 0) = Inr ''val''" by (simp add: mem_of_def)
  have d: "optind ?s = 1" and e: "optcursor ?s = NULL" by (simp_all add: init_state_def)
  from getopt_value_from_next_element [OF a b c d e] obtain s' where
    r: "getopt ?mem 3 ''o:'' ?s = Some (Inr (char_code CHR ''o'', s'))" by blast
  have "getopt ?mem 3 ''o:'' ?s = Some (Inr (111,
         \<lparr>optarg = Ptr 2 0, optopt = 111, optind = 3, opterr = 0, optcursor = NULL,
          first = NULL, argv = [Ptr 0 0, Ptr 1 0, Ptr 2 0], ints = (\<lambda>_. 0), stderr = []\<rparr>))"
    by (simp add: getopt_def getopt_front_def getopt_begin_def permute_def short_cursor_def
        rd_def short_option_def short_argument_def short_advance_def char_at_def Let_def
        init_state_def av mem_of_def deref_def char_code_def)
  with r show ?thesis by simp
qed

section \<open>Evaluation on concrete inputs\<close>

lemmas eval_defs = getopt_def getopt_front_def getopt_begin_def permute_def short_cursor_def
        rd_def short_option_def short_argument_def short_advance_def char_at_def Let_def
        init_state_def mem_of_def deref_def char_code_def no_more_optchars_def rotate_def
        getopt_long_def getopt_long_front_def long_resolve_def long_argument_def
        long_matched_def long_writes_def strncmp_eq_def strcspn_eq_def candidate_name_def

lemma argv_of_2: "argv_of 2 = [Ptr 0 0, Ptr 1 0]"
  by (simp add: argv_of_def upt_rec)

lemma argv_of_3: "argv_of 3 = [Ptr 0 0, Ptr 1 0, Ptr 2 0]"
  by (simp add: argv_of_def upt_rec)

section \<open>Resolution of a long option name\<close>

text \<open>
  C4. For every long-option table and every token \<^verbatim>\<open>--name[=value]\<close> that
  \<^verbatim>\<open>getopt_long\<close> processes: the first descriptor whose name equals the candidate name is
  selected at once, with \<^verbatim>\<open>num_matches\<close> 1. When no name equals the candidate name: a
  descriptor that is the only one to have the candidate name as a prefix is selected; when
  more than one descriptor has it as a prefix the call returns \<^verbatim>\<open>'?'\<close>, and when none has,
  the call returns \<^verbatim>\<open>'?'\<close> too (both only advance the scan index). A selected descriptor
  is the one the call goes on with. With the descriptors \<^verbatim>\<open>help\<close> and \<^verbatim>\<open>hex\<close>, the token
  \<^verbatim>\<open>--he\<close> gives \<^verbatim>\<open>'?'\<close> and the token \<^verbatim>\<open>--hel\<close> selects \<^verbatim>\<open>help\<close> and returns its value
  (the witness).
\<close>

theorem long_option_matching:
  assumes "getopt_long_front mem argc s0 = Some (Inr (Long_token p t s))"
  shows "(\<forall>i<length longopts.
            name (longopts ! i) = candidate_name t
              \<and> (\<forall>j<i. name (longopts ! j) \<noteq> candidate_name t) \<longrightarrow>
            find_match (drop 2 t) (strcspn_eq (drop 2 t)) longopts 0 None 0 = (Some i, 1))
       \<and> ((\<forall>opt\<in>set longopts. name opt \<noteq> candidate_name t) \<longrightarrow>
            (\<forall>i<length longopts.
               prefix (candidate_name t) (name (longopts ! i))
                 \<and> (\<forall>j<length longopts. j \<noteq> i \<longrightarrow>
                       \<not> prefix (candidate_name t) (name (longopts ! j))) \<longrightarrow>
               find_match (drop 2 t) (strcspn_eq (drop 2 t)) longopts 0 None 0 = (Some i, 1))
          \<and> (1 < length (filter (\<lambda>opt. prefix (candidate_name t) (name opt)) longopts) \<longrightarrow>
               getopt_long mem argc optstring longopts longindex s0
                 = Some (Inr (char_code CHR ''?'', s\<lparr>optind := optind s + 1\<rparr>)))
          \<and> (filter (\<lambda>opt. prefix (candidate_name t) (name opt)) longopts = [] \<longrightarrow>
               getopt_long mem argc optstring longopts longindex s0
                 = Some (Inr (char_code CHR ''?'', s\<lparr>optind := optind s + 1\<rparr>))))
       \<and> (\<forall>i. find_match (drop 2 t) (strcspn_eq (drop 2 t)) longopts 0 None 0 = (Some i, 1) \<longrightarrow>
            getopt_long mem argc optstring longopts longindex s0
              = Some (case long_matched argc longopts longindex i p t s of
                        Inl f \<Rightarrow> Inl f
                      | Inr (retval, s1) \<Rightarrow> Inr (retval, s1\<lparr>optind := optind s1 + 1\<rparr>)))"
proof (intro conjI allI impI)
  fix i
  assume "i < length longopts"
    and "name (longopts ! i) = candidate_name t \<and> (\<forall>j<i. name (longopts ! j) \<noteq> candidate_name t)"
  then show "find_match (drop 2 t) (strcspn_eq (drop 2 t)) longopts 0 None 0 = (Some i, 1)"
    using find_match_exact [of i longopts t 0 None 0] by simp
next
  fix i
  assume "\<forall>opt\<in>set longopts. name opt \<noteq> candidate_name t" and "i < length longopts"
    and "prefix (candidate_name t) (name (longopts ! i))
           \<and> (\<forall>j<length longopts. j \<noteq> i \<longrightarrow> \<not> prefix (candidate_name t) (name (longopts ! j)))"
  then show "find_match (drop 2 t) (strcspn_eq (drop 2 t)) longopts 0 None 0 = (Some i, 1)"
    using find_match_unique [of longopts t i 0 None 0] by simp
next
  assume ne: "\<forall>opt\<in>set longopts. name opt \<noteq> candidate_name t"
    and "1 < length (filter (\<lambda>opt. prefix (candidate_name t) (name opt)) longopts)"
  with find_match_count [OF ne, of 0 None 0]
  have "snd (find_match (drop 2 t) (strcspn_eq (drop 2 t)) longopts 0 None 0) \<noteq> 1" by simp
  moreover from long_token_facts [OF assms] have "opterr s = 0" by simp
  ultimately show "getopt_long mem argc optstring longopts longindex s0
      = Some (Inr (char_code CHR ''?'', s\<lparr>optind := optind s + 1\<rparr>))"
    by (simp add: getopt_long_token [OF assms] long_resolve_unmatched)
next
  assume ne: "\<forall>opt\<in>set longopts. name opt \<noteq> candidate_name t"
    and "filter (\<lambda>opt. prefix (candidate_name t) (name opt)) longopts = []"
  with find_match_count [OF ne, of 0 None 0]
  have "snd (find_match (drop 2 t) (strcspn_eq (drop 2 t)) longopts 0 None 0) \<noteq> 1" by simp
  moreover from long_token_facts [OF assms] have "opterr s = 0" by simp
  ultimately show "getopt_long mem argc optstring longopts longindex s0
      = Some (Inr (char_code CHR ''?'', s\<lparr>optind := optind s + 1\<rparr>))"
    by (simp add: getopt_long_token [OF assms] long_resolve_unmatched)
next
  fix i
  assume "find_match (drop 2 t) (strcspn_eq (drop 2 t)) longopts 0 None 0 = (Some i, 1)"
  then show "getopt_long mem argc optstring longopts longindex s0
              = Some (case long_matched argc longopts longindex i p t s of
                        Inl f \<Rightarrow> Inl f
                      | Inr (retval, s1) \<Rightarrow> Inr (retval, s1\<lparr>optind := optind s1 + 1\<rparr>))"
    by (simp add: getopt_long_token [OF assms] long_resolve_matched)
qed

theorem long_option_matching_witness:
  "getopt_long (mem_of [''prog'', ''--he'']) 2 ''''
       [\<lparr>name = ''help'', has_arg = no_argument, flag = None, val = 104\<rparr>,
        \<lparr>name = ''hex'', has_arg = no_argument, flag = None, val = 120\<rparr>] None
       (init_state (argv_of 2))
     = Some (Inr (char_code CHR ''?'',
         \<lparr>optarg = NULL, optopt = 0, optind = 2, opterr = 0, optcursor = NULL,
          first = NULL, argv = [Ptr 0 0, Ptr 1 0], ints = (\<lambda>_. 0), stderr = []\<rparr>))
   \<and> find_match ''hel'' 3
       [\<lparr>name = ''help'', has_arg = no_argument, flag = None, val = 104\<rparr>,
        \<lparr>name = ''hex'', has_arg = no_argument, flag = None, val = 120\<rparr>] 0 None 0 = (Some 0, 1)
   \<and> getopt_long (mem_of [''prog'', ''--hel'']) 2 ''''
       [\<lparr>name = ''help'', has_arg = no_argument, flag = None, val = 104\<rparr>,
        \<lparr>name = ''hex'', has_arg = no_argument, flag = None, val = 120\<rparr>] None
       (init_state (argv_of 2))
     = Some (Inr (104,
         \<lparr>optarg = NULL, optopt = 0, optind = 2, opterr = 0, optcursor = NULL,
          first = NULL, argv = [Ptr 0 0, Ptr 1 0], ints = (\<lambda>_. 0), stderr = []\<rparr>))"
proof -
  let ?lo = "[\<lparr>name = ''help'', has_arg = no_argument, flag = None, val = 104\<rparr>,
              \<lparr>name = ''hex'', has_arg = no_argument, flag = None, val = 120\<rparr>]"
  let ?s = "\<lparr>optarg = NULL, optopt = 0, optind = 1, opterr = 0, optcursor = NULL,
          first = NULL, argv = [Ptr 0 0, Ptr 1 0], ints = (\<lambda>_. 0), stderr = []\<rparr>"
  have f1: "getopt_long_front (mem_of [''prog'', ''--he'']) 2 (init_state (argv_of 2))
      = Some (Inr (Long_token (Ptr 1 0) ''--he'' ?s))"
    by (simp add: eval_defs argv_of_2)
  have f2: "getopt_long_front (mem_of [''prog'', ''--hel'']) 2 (init_state (argv_of 2))
      = Some (Inr (Long_token (Ptr 1 0) ''--hel'' ?s))"
    by (simp add: eval_defs argv_of_2)
  have ne1: "\<forall>opt\<in>set ?lo. name opt \<noteq> candidate_name ''--he''"
    by (simp add: candidate_name_def)
  have two: "1 < length (filter (\<lambda>opt. prefix (candidate_name ''--he'') (name opt)) ?lo)"
    by (simp add: candidate_name_def)
  from long_option_matching [OF f1, of ?lo "''''" None] ne1 two
  have a: "getopt_long (mem_of [''prog'', ''--he'']) 2 '''' ?lo None (init_state (argv_of 2))
      = Some (Inr (char_code CHR ''?'', ?s\<lparr>optind := optind ?s + 1\<rparr>))"
    by blast
  have ne2: "\<forall>opt\<in>set ?lo. name opt \<noteq> candidate_name ''--hel''"
    by (simp add: candidate_name_def)
  have one: "prefix (candidate_name ''--hel'') (name (?lo ! 0))
      \<and> (\<forall>j<length ?lo. j \<noteq> 0 \<longrightarrow> \<not> prefix (candidate_name ''--hel'') (name (?lo ! j)))"
    by (simp add: candidate_name_def less_Suc_eq)
  have len: "0 < length ?lo" by simp
  from long_option_matching [OF f2, of ?lo "''''" None] ne2 one len
  have b: "find_match (drop 2 ''--hel'') (strcspn_eq (drop 2 ''--hel'')) ?lo 0 None 0 = (Some 0, 1)"
    by blast
  from long_option_matching [OF f2, of ?lo "''''" None] b
  have c: "getopt_long (mem_of [''prog'', ''--hel'']) 2 '''' ?lo None (init_state (argv_of 2))
      = Some (case long_matched 2 ?lo None 0 (Ptr 1 0) ''--hel'' ?s of
                Inl f \<Rightarrow> Inl f
              | Inr (retval, s1) \<Rightarrow> Inr (retval, s1\<lparr>optind := optind s1 + 1\<rparr>))"
    by blast
  from a have a': "getopt_long (mem_of [''prog'', ''--he'']) 2 '''' ?lo None (init_state (argv_of 2))
     = Some (Inr (char_code CHR ''?'',
         \<lparr>optarg = NULL, optopt = 0, optind = 2, opterr = 0, optcursor = NULL,
          first = NULL, argv = [Ptr 0 0, Ptr 1 0], ints = (\<lambda>_. 0), stderr = []\<rparr>))"
    by simp
  have dr: "drop 2 ''--hel'' = ''hel''" by simp
  have cs: "strcspn_eq ''hel'' = 3" by (simp add: strcspn_eq_def)
  from b have b': "find_match ''hel'' 3 ?lo 0 None 0 = (Some 0, 1)"
    by (simp only: dr cs)
  from c have c': "getopt_long (mem_of [''prog'', ''--hel'']) 2 '''' ?lo None (init_state (argv_of 2))
     = Some (Inr (104,
         \<lparr>optarg = NULL, optopt = 0, optind = 2, opterr = 0, optcursor = NULL,
          first = NULL, argv = [Ptr 0 0, Ptr 1 0], ints = (\<lambda>_. 0), stderr = []\<rparr>))"
    by (simp add: long_matched_def long_writes_def long_argument_def Let_def)
  from a' b' c' show ?thesis by (intro conjI)
qed

section \<open>A value given to an option that takes none\<close>

text \<open>
  C7. For every call of \<^verbatim>\<open>getopt_long\<close> whose token resolves to exactly one descriptor,
  of argument mode \<^verbatim>\<open>no_argument\<close>, while the token contains \<^verbatim>\<open>=\<close>: the call returns
  \<^verbatim>\<open>'?'\<close>, whatever the descriptor's flag and value are (the writes through
  \<^verbatim>\<open>longindex\<close> and the flag have been made, and the scan index moves on by one).
\<close>

theorem long_equals_without_argument:
  assumes "getopt_long_front mem argc s0 = Some (Inr (Long_token p t s))"
    and "find_match (drop 2 t) (strcspn_eq (drop 2 t)) longopts 0 None 0 = (Some i, 1)"
    and "has_arg (longopts ! i) = no_argument"
    and "CHR ''='' \<in> set t"
  shows "getopt_long mem argc optstring longopts longindex s0
           = Some (Inr (char_code CHR ''?'',
                        (long_writes longopts longindex i s)\<lparr>optind := optind s + 1\<rparr>))"
proof -
  from assms(4) have "strchr t CHR ''='' \<noteq> None" by (simp add: strchr_None)
  with assms(3) have "long_matched argc longopts longindex i p t s
      = Inr (char_code CHR ''?'', long_writes longopts longindex i s)"
    by (simp add: long_matched_def long_argument_def Let_def)
  then show ?thesis
    by (simp add: getopt_long_token [OF assms(1)] long_resolve_matched [OF assms(2)]
        long_writes_fields)
qed

theorem long_equals_without_argument_witness:
  "getopt_long (mem_of [''prog'', ''--help=x'']) 2 ''''
       [\<lparr>name = ''help'', has_arg = no_argument, flag = Some 7, val = 104\<rparr>] (Some 5)
       (init_state (argv_of 2))
     = Some (Inr (char_code CHR ''?'',
         \<lparr>optarg = NULL, optopt = 0, optind = 2, opterr = 0, optcursor = NULL,
          first = NULL, argv = [Ptr 0 0, Ptr 1 0], ints = (\<lambda>_. 0)(5 := 0, 7 := 104),
          stderr = []\<rparr>))"
proof -
  let ?lo = "[\<lparr>name = ''help'', has_arg = no_argument, flag = Some 7, val = 104\<rparr>]"
  let ?s = "\<lparr>optarg = NULL, optopt = 0, optind = 1, opterr = 0, optcursor = NULL,
          first = NULL, argv = [Ptr 0 0, Ptr 1 0], ints = (\<lambda>_. 0), stderr = []\<rparr>"
  have f: "getopt_long_front (mem_of [''prog'', ''--help=x'']) 2 (init_state (argv_of 2))
      = Some (Inr (Long_token (Ptr 1 0) ''--help=x'' ?s))"
    by (simp add: eval_defs argv_of_2)
  have m: "find_match (drop 2 ''--help=x'') (strcspn_eq (drop 2 ''--help=x'')) ?lo 0 None 0
      = (Some 0, 1)"
    by (simp add: strcspn_eq_def strncmp_eq_def)
  have n: "has_arg (?lo ! 0) = no_argument" by simp
  have e: "CHR ''='' \<in> set ''--help=x''" by simp
  from long_equals_without_argument [OF f m n e, of "''''" "Some 5"]
  show ?thesis by (simp add: long_writes_def)
qed

section \<open>The writes of a resolved long option\<close>

lemma long_argument_returns:
  assumes "nat argc \<le> length (argv s)" and "0 \<le> optind s"
  shows "\<exists>r s'. long_argument argc m p t retval s = Inr (r, s') \<and> ints s' = ints s
            \<and> argv s' = argv s \<and> stderr s' = stderr s"
proof (cases "optind s + 1 < argc")
  case True
  with assms have "rd (argv s) (optind s + 1) = Inr (argv s ! nat (optind s + 1))"
    by (simp add: rd_def)
  then show ?thesis
    by (simp add: long_argument_def Let_def)
next
  case False
  then show ?thesis
    by (simp add: long_argument_def Let_def)
qed

text \<open>
  C9. For every call of \<^verbatim>\<open>getopt_long\<close> whose token resolves to exactly one descriptor
  (and whose \<^verbatim>\<open>argc\<close> does not exceed the size of the array): the call returns, and in
  the state it leaves the \<^verbatim>\<open>int\<close> variables are those from before the call with the
  descriptor's table index written through \<^verbatim>\<open>longindex\<close> (when it is not null) and then
  the descriptor's value written through its flag (when it is not null). This holds for
  every return value, also \<^verbatim>\<open>'?'\<close> (a value given to an option that takes none) and
  \<^verbatim>\<open>':'\<close> (a required value is missing): the witness has one call of each kind.
\<close>

theorem long_writes_kept:
  assumes "getopt_long_front mem argc s0 = Some (Inr (Long_token p t s))"
    and "find_match (drop 2 t) (strcspn_eq (drop 2 t)) longopts 0 None 0 = (Some i, 1)"
    and "nat argc \<le> length (argv s0)"
  shows "\<exists>r s'. getopt_long mem argc optstring longopts longindex s0 = Some (Inr (r, s'))
           \<and> ints s' =
               (let written = (case longindex of
                                 None \<Rightarrow> ints s0
                               | Some a \<Rightarrow> (ints s0)(a := int i))
                in case flag (longopts ! i) of
                     None \<Rightarrow> written
                   | Some a \<Rightarrow> written(a := val (longopts ! i)))"
proof -
  let ?w = "long_writes longopts longindex i s"
  from long_token_facts [OF assms(1)] have ints: "ints s = ints s0"
    and pos: "0 \<le> optind s" and len: "length (argv s) = length (argv s0)"
    by (simp_all add: reordered_def)
  from assms(3) len pos have "nat argc \<le> length (argv ?w)" "0 \<le> optind ?w"
    by (simp_all add: long_writes_fields)
  from long_argument_returns [OF this]
  obtain r s1 where r: "long_matched argc longopts longindex i p t s = Inr (r, s1)"
    and i1: "ints s1 = ints ?w"
    unfolding long_matched_def Let_def by blast
  have "ints ?w = (let written = (case longindex of
                                 None \<Rightarrow> ints s0
                               | Some a \<Rightarrow> (ints s0)(a := int i))
                in case flag (longopts ! i) of
                     None \<Rightarrow> written
                   | Some a \<Rightarrow> written(a := val (longopts ! i)))"
    by (simp add: long_writes_def Let_def ints split: option.splits)
  with r i1 show ?thesis
    by (simp add: getopt_long_token [OF assms(1)] long_resolve_matched [OF assms(2)])
qed

theorem long_writes_kept_witness:
  "getopt_long (mem_of [''prog'', ''--help=x'']) 2 ''''
       [\<lparr>name = ''help'', has_arg = no_argument, flag = Some 7, val = 104\<rparr>] (Some 5)
       (init_state (argv_of 2))
     = Some (Inr (char_code CHR ''?'',
         \<lparr>optarg = NULL, optopt = 0, optind = 2, opterr = 0, optcursor = NULL,
          first = NULL, argv = [Ptr 0 0, Ptr 1 0], ints = (\<lambda>_. 0)(5 := 0, 7 := 104),
          stderr = []\<rparr>))
   \<and> getopt_long (mem_of [''prog'', ''--out'']) 2 ''''
       [\<lparr>name = ''in'', has_arg = no_argument, flag = None, val = 105\<rparr>,
        \<lparr>name = ''out'', has_arg = required_argument, flag = Some 7, val = 111\<rparr>] (Some 5)
       (init_state (argv_of 2))
     = Some (Inr (char_code CHR '':'',
         \<lparr>optarg = NULL, optopt = 0, optind = 3, opterr = 0, optcursor = NULL,
          first = NULL, argv = [Ptr 0 0, Ptr 1 0], ints = (\<lambda>_. 0)(5 := 1, 7 := 111),
          stderr = []\<rparr>))"
proof -
  let ?lo1 = "[\<lparr>name = ''help'', has_arg = no_argument, flag = Some 7, val = 104\<rparr>]"
  let ?lo2 = "[\<lparr>name = ''in'', has_arg = no_argument, flag = None, val = 105\<rparr>,
               \<lparr>name = ''out'', has_arg = required_argument, flag = Some 7, val = 111\<rparr>]"
  let ?s = "\<lparr>optarg = NULL, optopt = 0, optind = 1, opterr = 0, optcursor = NULL,
          first = NULL, argv = [Ptr 0 0, Ptr 1 0], ints = (\<lambda>_. 0), stderr = []\<rparr>"
  have f1: "getopt_long_front (mem_of [''prog'', ''--help=x'']) 2 (init_state (argv_of 2))
      = Some (Inr (Long_token (Ptr 1 0) ''--help=x'' ?s))"
    by (simp add: eval_defs argv_of_2)
  have m1: "find_match (drop 2 ''--help=x'') (strcspn_eq (drop 2 ''--help=x'')) ?lo1 0 None 0
      = (Some 0, 1)"
    by (simp add: strcspn_eq_def strncmp_eq_def)
  have f2: "getopt_long_front (mem_of [''prog'', ''--out'']) 2 (init_state (argv_of 2))
      = Some (Inr (Long_token (Ptr 1 0) ''--out'' ?s))"
    by (simp add: eval_defs argv_of_2)
  have m2: "find_match (drop 2 ''--out'') (strcspn_eq (drop 2 ''--out'')) ?lo2 0 None 0
      = (Some 1, 1)"
    by (simp add: strcspn_eq_def strncmp_eq_def)
  have l: "nat 2 \<le> length (argv (init_state (argv_of 2)))"
    by (simp add: init_state_def argv_of_2)
  from long_writes_kept [OF f1 m1 l, of "''''" "Some 5"] obtain r1 s1 where
    a: "getopt_long (mem_of [''prog'', ''--help=x'']) 2 '''' ?lo1 (Some 5) (init_state (argv_of 2))
          = Some (Inr (r1, s1))" by blast
  from long_writes_kept [OF f2 m2 l, of "''''" "Some 5"] obtain r2 s2 where
    b: "getopt_long (mem_of [''prog'', ''--out'']) 2 '''' ?lo2 (Some 5) (init_state (argv_of 2))
          = Some (Inr (r2, s2))" by blast
  have a': "getopt_long (mem_of [''prog'', ''--help=x'']) 2 '''' ?lo1 (Some 5)
       (init_state (argv_of 2))
     = Some (Inr (char_code CHR ''?'',
         \<lparr>optarg = NULL, optopt = 0, optind = 2, opterr = 0, optcursor = NULL,
          first = NULL, argv = [Ptr 0 0, Ptr 1 0], ints = (\<lambda>_. 0)(5 := 0, 7 := 104),
          stderr = []\<rparr>))"
    by (simp add: eval_defs argv_of_2)
  have b': "getopt_long (mem_of [''prog'', ''--out'']) 2 '''' ?lo2 (Some 5)
       (init_state (argv_of 2))
     = Some (Inr (char_code CHR '':'',
         \<lparr>optarg = NULL, optopt = 0, optind = 3, opterr = 0, optcursor = NULL,
          first = NULL, argv = [Ptr 0 0, Ptr 1 0], ints = (\<lambda>_. 0)(5 := 1, 7 := 111),
          stderr = []\<rparr>))"
    by (simp add: eval_defs argv_of_2)
  from a b a' b' show ?thesis by simp
qed

section \<open>A token with an empty candidate name\<close>

lemma candidate_name_empty:
  assumes "take 3 t = ''--=''"
  shows "candidate_name t = []"
proof -
  from assms have "3 \<le> length t" by (cases "3 \<le> length t") auto
  with assms have "t ! 2 = CHR ''=''"
    by (metis nth_take numeral_2_eq_2 numeral_3_eq_3 lessI nth_Cons_0 nth_Cons_Suc)
  with \<open>3 \<le> length t\<close> have "hd (drop 2 t) = CHR ''=''" "drop 2 t \<noteq> []"
    by (simp_all add: hd_drop_conv_nth)
  then show ?thesis
    by (cases "drop 2 t") (simp_all add: candidate_name_def)
qed

text \<open>
  C10, as stated, fails: in a table that has a descriptor with the empty name, the token
  \<^verbatim>\<open>--=x\<close> matches that descriptor exactly (lines 244--249), so the call is not
  ambiguous. Here the descriptor takes a required argument and the call returns its value
  101, with \<^verbatim>\<open>optarg\<close> at the text \<^verbatim>\<open>x\<close>.
\<close>

theorem long_empty_name_counterexample:
  "getopt_long (mem_of [''prog'', ''--=x'']) 2 ''''
       [\<lparr>name = '''', has_arg = required_argument, flag = None, val = 101\<rparr>,
        \<lparr>name = ''help'', has_arg = no_argument, flag = None, val = 104\<rparr>] None
       (init_state (argv_of 2))
     = Some (Inr (101, (init_state (argv_of 2))\<lparr>optarg := Ptr 1 3, optind := 2, opterr := 0\<rparr>))
   \<and> (101 :: int) \<noteq> char_code CHR ''?''
   \<and> cstring (mem_of [''prog'', ''--=x'']) (Ptr 1 3) = Inr ''x''"
  by (simp add: eval_defs argv_of_2)

text \<open>
  C10, amended. For every long-option table with at least two descriptors, none of which
  has an empty name, a token in which \<^verbatim>\<open>--\<close> is immediately followed by \<^verbatim>\<open>=\<close> has the
  empty candidate name, every descriptor has it as a prefix and is counted as a match, and
  the call of \<^verbatim>\<open>getopt_long\<close> returns \<^verbatim>\<open>'?'\<close>, only advancing the scan index.
\<close>

theorem long_empty_name_ambiguous:
  assumes "getopt_long_front mem argc s0 = Some (Inr (Long_token p t s))"
    and "take 3 t = ''--=''"
    and "2 \<le> length longopts"
    and "\<forall>opt\<in>set longopts. name opt \<noteq> []"
  shows "candidate_name t = []
       \<and> (\<forall>opt\<in>set longopts. prefix (candidate_name t) (name opt))
       \<and> snd (find_match (drop 2 t) (strcspn_eq (drop 2 t)) longopts 0 None 0)
           = int (length longopts)
       \<and> getopt_long mem argc optstring longopts longindex s0
           = Some (Inr (char_code CHR ''?'', s\<lparr>optind := optind s + 1\<rparr>))"
proof -
  have c: "candidate_name t = []" using assms(2) by (rule candidate_name_empty)
  from assms(4) c have ne: "\<forall>opt\<in>set longopts. name opt \<noteq> candidate_name t" by simp
  from find_match_count [OF ne, of 0 None 0] c
  have n: "snd (find_match (drop 2 t) (strcspn_eq (drop 2 t)) longopts 0 None 0)
      = int (length longopts)" by simp
  with assms(3) have "snd (find_match (drop 2 t) (strcspn_eq (drop 2 t)) longopts 0 None 0) \<noteq> 1"
    by simp
  moreover from long_token_facts [OF assms(1)] have "opterr s = 0" by simp
  ultimately have "getopt_long mem argc optstring longopts longindex s0
      = Some (Inr (char_code CHR ''?'', s\<lparr>optind := optind s + 1\<rparr>))"
    by (simp add: getopt_long_token [OF assms(1)] long_resolve_unmatched)
  with c n show ?thesis by simp
qed

theorem long_empty_name_ambiguous_witness:
  "getopt_long (mem_of [''prog'', ''--=x'']) 2 ''''
       [\<lparr>name = ''help'', has_arg = required_argument, flag = None, val = 104\<rparr>,
        \<lparr>name = ''hex'', has_arg = no_argument, flag = None, val = 120\<rparr>] None
       (init_state (argv_of 2))
     = Some (Inr (char_code CHR ''?'',
         \<lparr>optarg = NULL, optopt = 0, optind = 2, opterr = 0, optcursor = NULL,
          first = NULL, argv = [Ptr 0 0, Ptr 1 0], ints = (\<lambda>_. 0), stderr = []\<rparr>))"
proof -
  let ?lo = "[\<lparr>name = ''help'', has_arg = required_argument, flag = None, val = 104\<rparr>,
              \<lparr>name = ''hex'', has_arg = no_argument, flag = None, val = 120\<rparr>]"
  let ?s = "\<lparr>optarg = NULL, optopt = 0, optind = 1, opterr = 0, optcursor = NULL,
          first = NULL, argv = [Ptr 0 0, Ptr 1 0], ints = (\<lambda>_. 0), stderr = []\<rparr>"
  have f: "getopt_long_front (mem_of [''prog'', ''--=x'']) 2 (init_state (argv_of 2))
      = Some (Inr (Long_token (Ptr 1 0) ''--=x'' ?s))"
    by (simp add: eval_defs argv_of_2)
  have t: "take 3 ''--=x'' = ''--=''" by simp
  have l: "2 \<le> length ?lo" by simp
  have n: "\<forall>opt\<in>set ?lo. name opt \<noteq> []" by simp
  from long_empty_name_ambiguous [OF f t l n, of "''''" None]
  show ?thesis by simp
qed

section \<open>A required value that is missing\<close>

text \<open>
  C6. For every call of \<^verbatim>\<open>getopt\<close> that reads an option character which the
  specification declares with exactly one colon after it (it requires a value), with no
  character left in the current element after the cursor and no next element
  (\<^verbatim>\<open>optind + 1\<close> is not below \<^verbatim>\<open>argc\<close>): the call returns \<^verbatim>\<open>':'\<close> when the
  specification starts with a colon and \<^verbatim>\<open>'?'\<close> otherwise, and it leaves \<^verbatim>\<open>optarg\<close> null
  (the cursor is cleared and the scan index has moved by two).
\<close>

theorem getopt_missing_value:
  assumes "getopt_front mem argc s0 = Some (Inr (Optchar c s))"
    and "strchr optstring c = Some d"
    and "char_at optstring (d + 1) = Inr CHR '':''"
    and "char_at optstring (d + 2) \<noteq> Inr CHR '':''"
    and "deref mem (ptr_add (optcursor s) 1) = Inr NUL"
    and "\<not> optind s + 1 < argc"
  shows "getopt mem argc optstring s0
           = Some (Inr (if char_at optstring 0 = Inr CHR '':'' then char_code CHR '':''
                        else char_code CHR ''?'',
                        s\<lparr>optarg := NULL, optcursor := NULL, optind := optind s + 2\<rparr>))"
proof -
  from optchar_facts [OF assms(1)] have err: "opterr s = 0" by simp
  from assms(3) have "d + 1 < length optstring"
    by (auto simp: char_at_def split: if_splits)
  then have "\<exists>c2. char_at optstring (d + 2) = Inr c2"
    by (cases "d + 2 < length optstring") (auto simp: char_at_def)
  then obtain c2 where c2: "char_at optstring (d + 2) = Inr c2" ..
  with assms(4) have ne: "c2 \<noteq> CHR '':''" by simp
  have "\<exists>c0. char_at optstring 0 = Inr c0"
    by (cases optstring) (auto simp: char_at_def)
  then obtain c0 where c0: "char_at optstring 0 = Inr c0" ..
  have "short_argument mem argc optstring d c s
      = Inr (if c0 = CHR '':'' then char_code CHR '':'' else char_code CHR ''?'',
             s\<lparr>optcursor := NULL, optarg := NULL, optind := optind s + 1\<rparr>)"
    using assms(5,6) c2 ne c0 err
    by (simp add: short_argument_def Let_def)
  with assms(2,3) have "short_option mem argc optstring c s
      = Inr (if c0 = CHR '':'' then char_code CHR '':'' else char_code CHR ''?'',
             s\<lparr>optarg := NULL, optcursor := NULL, optind := optind s + 2\<rparr>)"
    by (simp add: short_option_def short_advance_def)
  with assms(1) c0 show ?thesis by (simp add: getopt_def)
qed

theorem getopt_missing_value_witness:
  "getopt (mem_of [''prog'', ''-o'']) 2 ''o:'' (init_state (argv_of 2))
     = Some (Inr (char_code CHR ''?'',
         \<lparr>optarg = NULL, optopt = char_code CHR ''o'', optind = 3, opterr = 0, optcursor = NULL,
          first = NULL, argv = [Ptr 0 0, Ptr 1 0], ints = (\<lambda>_. 0), stderr = []\<rparr>))
   \<and> getopt (mem_of [''prog'', ''-o'']) 2 '':o:'' (init_state (argv_of 2))
     = Some (Inr (char_code CHR '':'',
         \<lparr>optarg = NULL, optopt = char_code CHR ''o'', optind = 3, opterr = 0, optcursor = NULL,
          first = NULL, argv = [Ptr 0 0, Ptr 1 0], ints = (\<lambda>_. 0), stderr = []\<rparr>))"
proof -
  let ?s = "\<lparr>optarg = NULL, optopt = char_code CHR ''o'', optind = 1, opterr = 0,
          optcursor = Ptr 1 1, first = NULL, argv = [Ptr 0 0, Ptr 1 0], ints = (\<lambda>_. 0),
          stderr = []\<rparr>"
  have f: "getopt_front (mem_of [''prog'', ''-o'']) 2 (init_state (argv_of 2))
      = Some (Inr (Optchar CHR ''o'' ?s))"
    by (simp add: eval_defs argv_of_2)
  have d1: "strchr ''o:'' CHR ''o'' = Some 0" by simp
  have d2: "strchr '':o:'' CHR ''o'' = Some 1" by simp
  have a1: "char_at ''o:'' (0 + 1) = Inr CHR '':''" by (simp add: char_at_def)
  have a2: "char_at '':o:'' (1 + 1) = Inr CHR '':''" by (simp add: char_at_def)
  have b1: "char_at ''o:'' (0 + 2) \<noteq> Inr CHR '':''" by (simp add: char_at_def)
  have b2: "char_at '':o:'' (1 + 2) \<noteq> Inr CHR '':''" by (simp add: char_at_def)
  have e: "deref (mem_of [''prog'', ''-o'']) (ptr_add (optcursor ?s) 1) = Inr NUL"
    by (simp add: deref_def mem_of_def char_at_def)
  have n: "\<not> optind ?s + 1 < 2" by simp
  from getopt_missing_value [OF f d1 a1 b1 e n] getopt_missing_value [OF f d2 a2 b2 e n]
  show ?thesis by (simp add: char_at_def)
qed

section \<open>What a call leaves unchanged\<close>

lemma char_code_nonneg: "0 \<le> char_code c"
proof -
  have "char_code c = int (of_char c)" by (simp add: char_code_def of_nat_of_char)
  then show ?thesis by simp
qed

lemma short_advance_frame:
  assumes "short_advance mem r0 s = Inr (r, s')"
  shows "r = r0 \<and> argv s' = argv s \<and> ints s' = ints s \<and> stderr s' = stderr s"
  using assms by (auto simp: short_advance_def Let_def split: if_splits sum.splits)

lemma short_argument_frame:
  assumes "short_argument mem argc optstring d c s = Inr (r, s')" and "opterr s = 0"
  shows "0 \<le> r \<and> argv s' = argv s \<and> ints s' = ints s \<and> stderr s' = stderr s
           \<and> optcursor s' = NULL"
  using assms char_code_nonneg
  by (auto simp: short_argument_def Let_def split: if_splits sum.splits)

lemma short_option_frame:
  assumes "short_option mem argc optstring c s = Inr (r, s')" and "opterr s = 0"
  shows "0 \<le> r \<and> argv s' = argv s \<and> ints s' = ints s \<and> stderr s' = stderr s"
proof -
  from assms(1) obtain r0 s1 where
    a: "(case strchr optstring c of
           Some d \<Rightarrow>
             (case char_at optstring (d + 1) of
                Inl f \<Rightarrow> Inl f
              | Inr c1 \<Rightarrow>
                  if c1 = CHR '':'' then short_argument mem argc optstring d c s
                  else Inr (char_code c, s))
         | None \<Rightarrow>
             Inr (char_code CHR ''?'',
                  if opterr s \<noteq> 0 then s\<lparr>stderr := stderr s @ [Invalid_option c]\<rparr> else s))
         = Inr (r0, s1)"
    and b: "short_advance mem r0 s1 = Inr (r, s')"
    by (auto simp: short_option_def split: sum.splits prod.splits)
  from a assms(2) have "0 \<le> r0 \<and> argv s1 = argv s \<and> ints s1 = ints s \<and> stderr s1 = stderr s"
    using char_code_nonneg
    by (auto split: option.splits sum.splits if_splits dest: short_argument_frame)
  with short_advance_frame [OF b] show ?thesis by simp
qed

lemma getopt_frame:
  assumes "getopt mem argc optstring s0 = Some (Inr (r, s'))"
  shows "reordered (nat (max 1 (optind s0))) (argv s0) (argv s')
       \<and> ints s' = ints s0 \<and> stderr s' = stderr s0"
proof -
  from assms obtain x where x: "getopt_front mem argc s0 = Some (Inr x)"
    by (auto simp: getopt_def split: option.splits sum.splits)
  show ?thesis
  proof (cases x)
    case (Finished r1 s1)
    with assms x have "s' = s1" by (simp add: getopt_def)
    with finished_facts [of mem argc s0 r1 s1] x Finished show ?thesis by simp
  next
    case (Optchar c s1)
    with assms x have so: "short_option mem argc optstring c s1 = Inr (r, s')"
      by (simp add: getopt_def)
    from optchar_facts [of mem argc s0 c s1] x Optchar
    have f: "opterr s1 = 0" "ints s1 = ints s0" "stderr s1 = stderr s0"
      "reordered (nat (max 1 (optind s0))) (argv s0) (argv s1)" by simp_all
    from short_option_frame [OF so f(1)] f show ?thesis by simp
  qed
qed

lemma long_argument_frame:
  assumes "long_argument argc m p t retval s = Inr (r, s')"
  shows "argv s' = argv s \<and> ints s' = ints s \<and> stderr s' = stderr s"
  using assms
  by (auto simp: long_argument_def Let_def split: if_splits sum.splits)

lemma long_resolve_frame:
  assumes "long_resolve argc longopts longindex p t s = Inr (r, s')" and "opterr s = 0"
  shows "argv s' = argv s \<and> stderr s' = stderr s"
proof -
  obtain m n where fm: "find_match (drop 2 t) (strcspn_eq (drop 2 t)) longopts 0 None 0 = (m, n)"
    by (cases "find_match (drop 2 t) (strcspn_eq (drop 2 t)) longopts 0 None 0")
  show ?thesis
  proof (cases "n = 1")
    case True
    with assms fm obtain i r1 s1 where "long_matched argc longopts longindex i p t s = Inr (r1, s1)"
      and s': "s' = s1\<lparr>optind := optind s1 + 1\<rparr>"
      by (auto simp: long_resolve_def Let_def split: option.splits sum.splits)
    then have "argv s1 = argv s \<and> stderr s1 = stderr s"
      by (auto simp: long_matched_def Let_def long_writes_fields dest!: long_argument_frame)
    with s' show ?thesis by simp
  next
    case False
    with assms fm show ?thesis
      by (auto simp: long_resolve_def Let_def)
  qed
qed

lemma long_front_shape:
  assumes "getopt_long_front mem argc s0 = Some (Inr x)"
  shows "x = Long_finished (- 1) (getopt_begin s0)
       \<or> (\<exists>e. permute mem argc (getopt_begin s0) = Some (Inr e) \<and>
             (case e of
                No_more s1 \<Rightarrow> x = Long_finished (- 1) (s1\<lparr>first := NULL\<rparr>)
              | Scan s1 \<Rightarrow> x = Short_token s1 \<or> (\<exists>p t. x = Long_token p t s1)))"
proof (cases "optind (getopt_begin s0) \<ge> argc")
  case True
  with assms show ?thesis by (simp add: getopt_long_front_def Let_def)
next
  case False
  with assms obtain e where e: "permute mem argc (getopt_begin s0) = Some (Inr e)"
    by (auto simp: getopt_long_front_def Let_def split: option.splits sum.splits)
  show ?thesis
  proof (cases e)
    case (No_more s1)
    with assms False e show ?thesis by (simp add: getopt_long_front_def Let_def)
  next
    case (Scan s1)
    with assms False e have "x = Short_token s1 \<or> (\<exists>p t. x = Long_token p t s1)"
      by (auto simp: getopt_long_front_def Let_def split: sum.splits if_splits)
    with e Scan show ?thesis by auto
  qed
qed

lemma getopt_long_frame:
  assumes "getopt_long mem argc optstring longopts longindex s0 = Some (Inr (r, s'))"
  shows "reordered (nat (max 1 (optind s0))) (argv s0) (argv s') \<and> stderr s' = stderr s0"
proof -
  let ?b = "getopt_begin s0"
  let ?k = "nat (max 1 (optind s0))"
  from assms obtain x where x: "getopt_long_front mem argc s0 = Some (Inr x)"
    by (auto simp: getopt_long_def split: option.splits sum.splits)
  from long_front_shape [OF x] show ?thesis
  proof
    assume "x = Long_finished (- 1) ?b"
    with assms x have "s' = ?b" by (simp add: getopt_long_def)
    then show ?thesis by (simp add: getopt_begin_fields reordered_refl)
  next
    assume "\<exists>e. permute mem argc ?b = Some (Inr e) \<and>
             (case e of
                No_more s1 \<Rightarrow> x = Long_finished (- 1) (s1\<lparr>first := NULL\<rparr>)
              | Scan s1 \<Rightarrow> x = Short_token s1 \<or> (\<exists>p t. x = Long_token p t s1))"
    then obtain e where e: "permute mem argc ?b = Some (Inr e)"
      and c: "case e of
                No_more s1 \<Rightarrow> x = Long_finished (- 1) (s1\<lparr>first := NULL\<rparr>)
              | Scan s1 \<Rightarrow> x = Short_token s1 \<or> (\<exists>p t. x = Long_token p t s1)"
      by blast
    from permute_reordered [OF e] obtain a av where
      sh: "e = No_more (?b\<lparr>first := a, argv := av\<rparr>) \<or> e = Scan (?b\<lparr>first := a, argv := av\<rparr>)"
      and re: "reordered ?k (argv s0) av"
      by (auto simp: getopt_begin_fields)
    let ?s1 = "?b\<lparr>first := a, argv := av\<rparr>"
    from sh show ?thesis
    proof
      assume "e = No_more ?s1"
      with c assms x have "s' = ?s1\<lparr>first := NULL\<rparr>" by (simp add: getopt_long_def)
      with re show ?thesis by (simp add: getopt_begin_fields)
    next
      assume "e = Scan ?s1"
      with c have "x = Short_token ?s1 \<or> (\<exists>p t. x = Long_token p t ?s1)" by simp
      then show ?thesis
      proof
        assume "x = Short_token ?s1"
        with assms x have g: "getopt mem argc optstring ?s1 = Some (Inr (r, s'))"
          by (simp add: getopt_long_def)
        from getopt_frame [OF g] have "reordered ?k av (argv s')" "stderr s' = stderr s0"
          by (simp_all add: getopt_begin_fields)
        with re show ?thesis using reordered_trans by blast
      next
        assume "\<exists>p t. x = Long_token p t ?s1"
        then obtain p t where "x = Long_token p t ?s1" by blast
        with assms x have l: "long_resolve argc longopts longindex p t ?s1 = Inr (r, s')"
          by (simp add: getopt_long_def)
        have "opterr ?s1 = 0" by (simp add: getopt_begin_fields)
        from long_resolve_frame [OF l this] re show ?thesis
          by (simp add: getopt_begin_fields)
      qed
    qed
  qed
qed

text \<open>A call of \<^verbatim>\<open>getopt\<close> that returns -1 has gone through its label
  \<^verbatim>\<open>no_more_optchars\<close>: the cursor and the anchor are null.\<close>

lemma getopt_no_more_clears:
  assumes "getopt mem argc optstring s0 = Some (Inr (- 1, s'))"
  shows "optcursor s' = NULL \<and> first s' = NULL"
proof -
  from assms obtain x where x: "getopt_front mem argc s0 = Some (Inr x)"
    by (auto simp: getopt_def split: option.splits sum.splits)
  show ?thesis
  proof (cases x)
    case (Finished r1 s1)
    with assms x have "s' = s1" by (simp add: getopt_def)
    with finished_facts [of mem argc s0 r1 s1] x Finished show ?thesis by simp
  next
    case (Optchar c s1)
    with assms x have so: "short_option mem argc optstring c s1 = Inr (- 1, s')"
      by (simp add: getopt_def)
    from optchar_facts [of mem argc s0 c s1] x Optchar have "opterr s1 = 0" by simp
    from short_option_frame [OF so this] show ?thesis by simp
  qed
qed

section \<open>The argument vector is only reordered\<close>

text \<open>
  C8. For every call of \<^verbatim>\<open>getopt\<close> or \<^verbatim>\<open>getopt_long\<close> that returns, the argument
  vector after the call is a permutation of the one before: it has the same elements and as
  many of them, every element before the scan index of the call (\<^verbatim>\<open>optind\<close>, taken as 1
  when it is less) is where it was, and the elements hold the texts they held (the memory
  of the strings is not written; the texts of the elements are the same multiset).
\<close>

theorem argv_only_reordered:
  assumes "getopt mem argc optstring s = Some (Inr (r, s'))
         \<or> getopt_long mem argc optstring longopts longindex s = Some (Inr (r, s'))"
  shows "mset (argv s') = mset (argv s)
       \<and> length (argv s') = length (argv s)
       \<and> take (nat (max 1 (optind s))) (argv s') = take (nat (max 1 (optind s))) (argv s)
       \<and> mset (map (cstring mem) (argv s')) = mset (map (cstring mem) (argv s))"
proof -
  from assms have re: "reordered (nat (max 1 (optind s))) (argv s) (argv s')"
    using getopt_frame getopt_long_frame by blast
  then have "mset (argv s') = mset (argv s)" by (simp add: reordered_def)
  then have "image_mset (cstring mem) (mset (argv s')) = image_mset (cstring mem) (mset (argv s))"
    by simp
  with re show ?thesis by (simp add: reordered_def)
qed

theorem argv_only_reordered_witness:
  "getopt (mem_of [''prog'', ''foo'', ''bar'', ''-a'']) 4 ''a'' ((init_state (argv_of 4))\<lparr>optind := 2\<rparr>)
     = Some (Inr (char_code CHR ''a'',
         \<lparr>optarg = NULL, optopt = char_code CHR ''a'', optind = 3, opterr = 0,
          optcursor = Ptr 3 2, first = Ptr 2 0, argv = [Ptr 0 0, Ptr 1 0, Ptr 3 0, Ptr 2 0],
          ints = (\<lambda>_. 0), stderr = []\<rparr>))
   \<and> mset [Ptr 0 0, Ptr 1 0, Ptr 3 0, Ptr 2 0] = mset (argv_of 4)
   \<and> take 2 [Ptr 0 0, Ptr 1 0, Ptr 3 0, Ptr 2 0] = take 2 (argv_of 4)"
proof -
  let ?m = "mem_of [''prog'', ''foo'', ''bar'', ''-a'']"
  let ?s = "(init_state (argv_of 4))\<lparr>optind := 2\<rparr>"
  let ?s' = "\<lparr>optarg = NULL, optopt = char_code CHR ''a'', optind = 3, opterr = 0,
          optcursor = Ptr 3 2, first = Ptr 2 0, argv = [Ptr 0 0, Ptr 1 0, Ptr 3 0, Ptr 2 0],
          ints = (\<lambda>_. 0), stderr = []\<rparr>"
  have av: "argv_of 4 = [Ptr 0 0, Ptr 1 0, Ptr 2 0, Ptr 3 0]"
    by (simp add: argv_of_def upt_rec)
  have g: "getopt ?m 4 ''a'' ?s = Some (Inr (char_code CHR ''a'', ?s'))"
    by (simp add: eval_defs av permute_loop.simps)
  then have "getopt ?m 4 ''a'' ?s = Some (Inr (char_code CHR ''a'', ?s'))
      \<or> getopt_long ?m 4 ''a'' [] None ?s = Some (Inr (char_code CHR ''a'', ?s'))" ..
  from argv_only_reordered [OF this] have
    "mset (argv ?s') = mset (argv ?s)"
    "take (nat (max 1 (optind ?s))) (argv ?s') = take (nat (max 1 (optind ?s))) (argv ?s)"
    by blast+
  then have "mset [Ptr 0 0, Ptr 1 0, Ptr 3 0, Ptr 2 0] = mset (argv_of 4)"
    "take 2 [Ptr 0 0, Ptr 1 0, Ptr 3 0, Ptr 2 0] = take 2 (argv_of 4)"
    by (simp_all add: init_state_def)
  with g show ?thesis by simp
qed

section \<open>A pass over operands only\<close>

lemma rotate_window:
  assumes "length pre = nat b" and "0 \<le> b" and "n = int (length w) + 1" and "w \<noteq> []"
  shows "rotate (pre @ x # w @ post) b n = Inr (pre @ w @ x # post)"
proof -
  from assms(3,4) have n: "\<not> n \<le> 1" "nat n - 1 = length w" by (cases w; simp)+
  from assms have len: "nat (b + n) = length pre + (length w + 1)" by simp
  have "take (nat b) (pre @ x # w @ post) = pre" using assms(1) by simp
  moreover have "drop (nat b + 1) (pre @ x # w @ post) = w @ post" using assms(1) by simp
  moreover have "(pre @ x # w @ post) ! nat b = x" using assms(1) by (simp add: nth_append)
  moreover have "drop (nat (b + n)) (pre @ x # w @ post) = post" by (simp add: len)
  moreover have "nat (b + n) \<le> length (pre @ x # w @ post)" by (simp add: len)
  ultimately show ?thesis using n assms(2) by (simp add: rotate_def)
qed

lemma rd_window: "length pre = nat b \<Longrightarrow> 0 \<le> b \<Longrightarrow> rd (pre @ x # rest) b = Inr x"
  by (simp add: rd_def nth_append)

text \<open>The anchor is in the window, after operands that are not the anchor: the loop of lines
  91--93 ends with the anchor at the scan index, the operands behind the rest of the
  window.\<close>

lemma permute_loop_cycle:
  assumes "\<forall>y\<in>set xs. y \<noteq> a \<and> (\<exists>c. deref mem y = Inr c \<and> c \<noteq> CHR ''-'')"
    and "deref mem a = Inr ca"
    and "length pre = nat oi" and "0 \<le> oi"
    and "argc - oi = int (length xs) + int (length zs) + 2"
  shows "permute_loop mem a oi argc (pre @ x # xs @ a # zs @ post)
           = Some (Inr (pre @ a # zs @ x # xs @ post))"
  using assms
proof (induction xs arbitrary: x zs)
  case Nil
  have "rotate (pre @ x # (a # zs) @ post) oi (argc - oi) = Inr (pre @ (a # zs) @ x # post)"
    using Nil.prems by (intro rotate_window) simp_all
  moreover have "rd (pre @ a # zs @ x # post) oi = Inr a"
    using Nil.prems by (intro rd_window) simp_all
  ultimately show ?case using Nil.prems(2)
    by (subst permute_loop.simps) simp
next
  case (Cons y ys)
  from Cons.prems(1) obtain c where y: "y \<noteq> a" "deref mem y = Inr c" "c \<noteq> CHR ''-''"
    by auto
  have "rotate (pre @ x # (y # ys @ a # zs) @ post) oi (argc - oi)
      = Inr (pre @ (y # ys @ a # zs) @ x # post)"
    using Cons.prems by (intro rotate_window) simp_all
  moreover have "rd (pre @ y # (ys @ a # zs @ x # post)) oi = Inr y"
    using Cons.prems by (intro rd_window) simp_all
  moreover have "permute_loop mem a oi argc (pre @ y # ys @ a # (zs @ [x]) @ post)
      = Some (Inr (pre @ a # (zs @ [x]) @ y # ys @ post))"
    using Cons.prems by (intro Cons.IH) simp_all
  ultimately show ?case using y
    by (subst permute_loop.simps) simp
qed

text \<open>A window of operands that starts with the anchor, which is not among the others: the
  loop runs once around and leaves the array as it was.\<close>

lemma permute_loop_identity:
  assumes "\<forall>y\<in>set (r # rs). y \<noteq> a \<and> (\<exists>c. deref mem y = Inr c \<and> c \<noteq> CHR ''-'')"
    and "deref mem a = Inr ca"
    and "length pre = nat oi" and "0 \<le> oi"
    and "argc - oi = int (length rs) + 2"
  shows "permute_loop mem a oi argc (pre @ a # r # rs @ post)
           = Some (Inr (pre @ a # r # rs @ post))"
proof -
  from assms(1) obtain c where r: "r \<noteq> a" "deref mem r = Inr c" "c \<noteq> CHR ''-''"
    by auto
  have "rotate (pre @ a # (r # rs) @ post) oi (argc - oi) = Inr (pre @ (r # rs) @ a # post)"
    using assms by (intro rotate_window) simp_all
  moreover have "rd (pre @ r # (rs @ a # post)) oi = Inr r"
    using assms by (intro rd_window) simp_all
  moreover have "permute_loop mem a oi argc (pre @ r # rs @ a # [] @ post)
      = Some (Inr (pre @ a # [] @ r # rs @ post))"
    using assms by (intro permute_loop_cycle) simp_all
  ultimately show ?thesis using r
    by (subst permute_loop.simps) simp
qed

text \<open>
  C3, as stated, fails: the loop of lines 91--93 recognises the anchor by its address, so
  it stops early when a later element is the same pointer as the first operand. With the
  elements \<^verbatim>\<open>a\<close>, \<^verbatim>\<open>b\<close>, \<^verbatim>\<open>a\<close> after the program name, the first and the third being
  one pointer, the call reports "no more options" after two rotations and leaves the
  sequence as \<^verbatim>\<open>a\<close>, \<^verbatim>\<open>a\<close>, \<^verbatim>\<open>b\<close>.
\<close>

theorem operands_only_pass_counterexample:
  "getopt (mem_of [''prog'', ''a'', ''b'']) 4 ''''
       (init_state [Ptr 0 0, Ptr 1 0, Ptr 2 0, Ptr 1 0])
     = Some (Inr (- 1,
         (init_state [Ptr 0 0, Ptr 1 0, Ptr 2 0, Ptr 1 0])
           \<lparr>opterr := 0, argv := [Ptr 0 0, Ptr 1 0, Ptr 1 0, Ptr 2 0]\<rparr>))
   \<and> map (cstring (mem_of [''prog'', ''a'', ''b''])) [Ptr 0 0, Ptr 1 0, Ptr 2 0, Ptr 1 0]
       = [Inr ''prog'', Inr ''a'', Inr ''b'', Inr ''a'']
   \<and> map (cstring (mem_of [''prog'', ''a'', ''b''])) [Ptr 0 0, Ptr 1 0, Ptr 1 0, Ptr 2 0]
       = [Inr ''prog'', Inr ''a'', Inr ''a'', Inr ''b'']"
  by (simp add: eval_defs permute_loop.simps)

text \<open>
  C3, amended. For every argument sequence with at least two elements after the program
  name, none of which starts with \<^verbatim>\<open>-\<close> and the first of which is not the same pointer as
  a later one, a fresh pass (scan index at most 1, no anchor recorded) reports "no more
  options" at its first call, of \<^verbatim>\<open>getopt\<close> and of \<^verbatim>\<open>getopt_long\<close> alike, and the
  sequence after the call is the sequence before it: the rotations have gone once around.
  Elements may hold equal texts, as in the witness.
\<close>

theorem operands_only_pass:
  assumes "optind s \<le> 1" and "first s = NULL"
    and "argv s = prog # a # r # rs @ post"
    and "argc = int (length rs) + 3"
    and "\<forall>y\<in>set (a # r # rs). \<exists>c. deref mem y = Inr c \<and> c \<noteq> CHR ''-''"
    and "a \<notin> set (r # rs)"
  shows "getopt mem argc optstring s
           = Some (Inr (- 1, (getopt_begin s)\<lparr>optcursor := NULL, first := NULL\<rparr>))
       \<and> getopt_long mem argc optstring longopts longindex s
           = Some (Inr (- 1, (getopt_begin s)\<lparr>first := NULL\<rparr>))
       \<and> argv (getopt_begin s) = prog # a # r # rs @ post"
proof -
  let ?b = "getopt_begin s"
  have b: "optind ?b = 1" "first ?b = NULL" "argv ?b = prog # a # r # rs @ post"
    using assms(1,2,3) by (simp_all add: getopt_begin_fields)
  from assms(5) obtain ca where ca: "deref mem a = Inr ca" "ca \<noteq> CHR ''-''" by auto
  then have an: "a \<noteq> NULL" by (auto simp: deref_def)
  have ops: "\<forall>y\<in>set (r # rs). y \<noteq> a \<and> (\<exists>c. deref mem y = Inr c \<and> c \<noteq> CHR ''-'')"
    using assms(5,6) by auto
  have loop: "permute_loop mem a 1 argc ([prog] @ a # r # rs @ post)
      = Some (Inr ([prog] @ a # r # rs @ post))"
    using ops ca(1) assms(4) by (intro permute_loop_identity) simp_all
  have rd1: "rd (prog # a # r # rs @ post) 1 = Inr a" by (simp add: rd_def)
  have "permute mem argc ?b = Some (Inr (No_more (?b\<lparr>first := a\<rparr>)))"
    using b rd1 an ca loop assms(4) by (simp add: permute_def Let_def)
  moreover have "\<not> optind ?b \<ge> argc" using b(1) assms(4) by simp
  ultimately have
    "getopt_front mem argc s
       = Some (Inr (Finished (- 1) (?b\<lparr>optcursor := NULL, first := NULL\<rparr>)))"
    "getopt_long_front mem argc s = Some (Inr (Long_finished (- 1) (?b\<lparr>first := NULL\<rparr>)))"
    by (simp_all add: getopt_front_def getopt_long_front_def Let_def no_more_optchars_def)
  then show ?thesis using b(3) by (simp add: getopt_def getopt_long_def)
qed

theorem operands_only_pass_witness:
  "getopt (mem_of [''prog'', ''a'', ''b'', ''a'']) 4 '''' (init_state (argv_of 4))
     = Some (Inr (- 1,
         \<lparr>optarg = NULL, optopt = 0, optind = 1, opterr = 0, optcursor = NULL,
          first = NULL, argv = [Ptr 0 0, Ptr 1 0, Ptr 2 0, Ptr 3 0], ints = (\<lambda>_. 0),
          stderr = []\<rparr>))
   \<and> getopt_long (mem_of [''prog'', ''a'', ''b'', ''a'']) 4 '''' [] None (init_state (argv_of 4))
     = Some (Inr (- 1,
         \<lparr>optarg = NULL, optopt = 0, optind = 1, opterr = 0, optcursor = NULL,
          first = NULL, argv = [Ptr 0 0, Ptr 1 0, Ptr 2 0, Ptr 3 0], ints = (\<lambda>_. 0),
          stderr = []\<rparr>))"
proof -
  let ?m = "mem_of [''prog'', ''a'', ''b'', ''a'']"
  let ?s = "init_state (argv_of 4)"
  have av: "argv_of 4 = [Ptr 0 0, Ptr 1 0, Ptr 2 0, Ptr 3 0]"
    by (simp add: argv_of_def upt_rec)
  have 1: "optind ?s \<le> 1" and 2: "first ?s = NULL" by (simp_all add: init_state_def)
  have 3: "argv ?s = Ptr 0 0 # Ptr 1 0 # Ptr 2 0 # [Ptr 3 0] @ []" by (simp add: init_state_def av)
  have 4: "(4 :: int) = int (length [Ptr 3 0]) + 3" by simp
  have 5: "\<forall>y\<in>set (Ptr 1 0 # Ptr 2 0 # [Ptr 3 0]). \<exists>c. deref ?m y = Inr c \<and> c \<noteq> CHR ''-''"
    by (simp add: deref_def mem_of_def char_at_def)
  have 6: "Ptr 1 0 \<notin> set (Ptr 2 0 # [Ptr 3 0])" by simp
  from operands_only_pass [OF 1 2 3 4 5 6, of "''''" "[]" None]
  show ?thesis by (simp add: getopt_begin_def init_state_def av)
qed

section \<open>Diagnostics\<close>

text \<open>
  C1. A call of \<^verbatim>\<open>getopt\<close> reading an option character that is not in the
  specification, with error reporting enabled when the call is made, is to return \<^verbatim>\<open>'?'\<close>
  and to write a diagnostic naming the character. The code returns \<^verbatim>\<open>'?'\<close> but writes
  nothing: line 66 sets \<^verbatim>\<open>opterr\<close> to 0 at the start of every call, before the test of
  line 170 (the comment of line 39 has the caller switch the message off by setting
  \<^verbatim>\<open>opterr\<close> to 0). Here \<^verbatim>\<open>opterr\<close> is 1 before the call, the element is \<^verbatim>\<open>-x\<close> and
  the specification is \<^verbatim>\<open>a\<close>; after the call \<^verbatim>\<open>stderr\<close> is still empty.
\<close>

theorem getopt_unknown_option_silent:
  "opterr (init_state (argv_of 2)) = 1
   \<and> getopt (mem_of [''prog'', ''-x'']) 2 ''a'' (init_state (argv_of 2))
     = Some (Inr (char_code CHR ''?'',
         \<lparr>optarg = NULL, optopt = char_code CHR ''x'', optind = 2, opterr = 0,
          optcursor = Ptr 1 2, first = NULL, argv = [Ptr 0 0, Ptr 1 0], ints = (\<lambda>_. 0),
          stderr = []\<rparr>))"
  by (simp add: eval_defs argv_of_2)

section \<open>The end of a pass\<close>

text \<open>
  C2. Every call of \<^verbatim>\<open>getopt\<close> or \<^verbatim>\<open>getopt_long\<close> that returns -1 is to leave
  the cluster cursor and the permutation anchor cleared. \<^verbatim>\<open>getopt\<close> does
  (\<open>getopt_no_more_clears\<close>); \<^verbatim>\<open>getopt_long\<close> does not. Its test of line 210 returns
  without going through a label, and its own label (lines 315--317) clears the anchor
  only. First pair of calls: after \<^verbatim>\<open>-a\<close> has been returned the cursor stands at the end of
  that element, and the next call, which finds the lone operand \<^verbatim>\<open>foo\<close> and returns -1,
  leaves it there. Second pair: \<^verbatim>\<open>foo\<close> is recorded as the anchor and then taken as the
  value of \<^verbatim>\<open>--out\<close>; the next call finds the index at the end, returns -1 and leaves the
  anchor recorded.
\<close>

theorem getopt_long_no_more_keeps_state:
  "getopt_long (mem_of [''prog'', ''-a'', ''foo'']) 3 ''a'' [] None (init_state (argv_of 3))
     = Some (Inr (char_code CHR ''a'',
         \<lparr>optarg = NULL, optopt = char_code CHR ''a'', optind = 2, opterr = 0,
          optcursor = Ptr 1 2, first = NULL, argv = [Ptr 0 0, Ptr 1 0, Ptr 2 0],
          ints = (\<lambda>_. 0), stderr = []\<rparr>))
   \<and> getopt_long (mem_of [''prog'', ''-a'', ''foo'']) 3 ''a'' [] None
         \<lparr>optarg = NULL, optopt = char_code CHR ''a'', optind = 2, opterr = 0,
          optcursor = Ptr 1 2, first = NULL, argv = [Ptr 0 0, Ptr 1 0, Ptr 2 0],
          ints = (\<lambda>_. 0), stderr = []\<rparr>
     = Some (Inr (- 1,
         \<lparr>optarg = NULL, optopt = 0, optind = 2, opterr = 0,
          optcursor = Ptr 1 2, first = NULL, argv = [Ptr 0 0, Ptr 1 0, Ptr 2 0],
          ints = (\<lambda>_. 0), stderr = []\<rparr>))
   \<and> getopt_long (mem_of [''prog'', ''foo'', ''--out'']) 3 ''''
         [\<lparr>name = ''out'', has_arg = required_argument, flag = None, val = 111\<rparr>] None
         (init_state (argv_of 3))
     = Some (Inr (111,
         \<lparr>optarg = Ptr 1 0, optopt = 0, optind = 3, opterr = 0, optcursor = NULL,
          first = Ptr 1 0, argv = [Ptr 0 0, Ptr 2 0, Ptr 1 0], ints = (\<lambda>_. 0),
          stderr = []\<rparr>))
   \<and> getopt_long (mem_of [''prog'', ''foo'', ''--out'']) 3 ''''
         [\<lparr>name = ''out'', has_arg = required_argument, flag = None, val = 111\<rparr>] None
         \<lparr>optarg = Ptr 1 0, optopt = 0, optind = 3, opterr = 0, optcursor = NULL,
          first = Ptr 1 0, argv = [Ptr 0 0, Ptr 2 0, Ptr 1 0], ints = (\<lambda>_. 0),
          stderr = []\<rparr>
     = Some (Inr (- 1,
         \<lparr>optarg = NULL, optopt = 0, optind = 3, opterr = 0, optcursor = NULL,
          first = Ptr 1 0, argv = [Ptr 0 0, Ptr 2 0, Ptr 1 0], ints = (\<lambda>_. 0),
          stderr = []\<rparr>))"
  by (simp add: eval_defs argv_of_3 permute_loop.simps)

section \<open>A call that does not return\<close>

text \<open>The anchor is not in the window and no element of the window starts with \<^verbatim>\<open>-\<close>: the
  loop of lines 91--93 has no way out.\<close>

lemma permute_loop_no_exit:
  assumes "permute_loop mem a oi argc av = Some r"
  shows "0 \<le> oi \<Longrightarrow> 1 < argc - oi \<Longrightarrow> nat argc \<le> length av \<Longrightarrow>
     \<forall>y\<in>set (take (nat (argc - oi)) (drop (nat oi) av)).
        y \<noteq> a \<and> (\<exists>c. deref mem y = Inr c \<and> c \<noteq> CHR ''-'') \<Longrightarrow> False"
proof (induction rule: permute_loop.raw_induct [OF _ assms])
  case (1 loop mem a oi argc av r)
  let ?n = "argc - oi"
  from "1.prems"(1-3) have "\<exists>av1. rotate av oi ?n = Inr av1"
    by (simp add: rotate_def)
  then obtain av1 where rot: "rotate av oi ?n = Inr av1" ..
  from rotate_decomp [OF rot "1.prems"(2)] obtain pre x mid post where
    av: "av = pre @ x # mid @ post" and av1: "av1 = pre @ mid @ x # post"
    and lp: "length pre = nat oi" and lm: "length mid = nat ?n - 1"
    by blast
  from lm "1.prems"(2) obtain m ms where mid: "mid = m # ms" by (cases mid) auto
  have nn: "nat ?n = Suc (length mid)" using lm "1.prems"(2) by linarith
  have w: "take (nat ?n) (drop (nat oi) av) = x # mid"
    using lp by (simp add: av nn)
  have w1: "take (nat ?n) (drop (nat oi) av1) = mid @ [x]"
    using lp by (simp add: av1 nn)
  from "1.prems"(4) w mid obtain c where m: "m \<noteq> a" "deref mem m = Inr c" "c \<noteq> CHR ''-''"
    by auto
  have rd1: "rd av1 oi = Inr m"
    using lp "1.prems"(1) by (simp add: av1 mid rd_def nth_append)
  from "1.hyps" rot rd1 m have "loop mem a oi argc av1 = Some r" by simp
  moreover have "nat argc \<le> length av1" using "1.prems"(3) by (simp add: av av1)
  moreover have "\<forall>y\<in>set (take (nat ?n) (drop (nat oi) av1)).
        y \<noteq> a \<and> (\<exists>c. deref mem y = Inr c \<and> c \<noteq> CHR ''-'')"
    using "1.prems"(4) w w1 by auto
  ultimately show ?case using "1.prems"(1,2) by (intro "1.IH")
qed

text \<open>
  A call that does not return. In \<^verbatim>\<open>prog foo bar baz -o\<close> with the specification
  \<^verbatim>\<open>"o:"\<close> the first call records \<^verbatim>\<open>foo\<close> as the anchor, moves \<^verbatim>\<open>-o\<close> in front and gives
  \<^verbatim>\<open>foo\<close> to \<^verbatim>\<open>-o\<close> as its value. The second call rotates \<^verbatim>\<open>bar\<close> and \<^verbatim>\<open>baz\<close>, waiting for
  the anchor, which is no longer among them.
\<close>

lemma getopt_anchor_taken_as_value:
  "getopt (mem_of [''prog'', ''foo'', ''bar'', ''baz'', ''-o'']) 5 ''o:''
       (init_state [Ptr 0 0, Ptr 1 0, Ptr 2 0, Ptr 3 0, Ptr 4 0])
     = Some (Inr (char_code CHR ''o'',
         \<lparr>optarg = Ptr 1 0, optopt = char_code CHR ''o'', optind = 3, opterr = 0,
          optcursor = NULL, first = Ptr 1 0,
          argv = [Ptr 0 0, Ptr 4 0, Ptr 1 0, Ptr 2 0, Ptr 3 0], ints = (\<lambda>_. 0),
          stderr = []\<rparr>))
   \<and> getopt (mem_of [''prog'', ''foo'', ''bar'', ''baz'', ''-o'']) 5 ''o:''
         \<lparr>optarg = Ptr 1 0, optopt = char_code CHR ''o'', optind = 3, opterr = 0,
          optcursor = NULL, first = Ptr 1 0,
          argv = [Ptr 0 0, Ptr 4 0, Ptr 1 0, Ptr 2 0, Ptr 3 0], ints = (\<lambda>_. 0),
          stderr = []\<rparr>
     = None"
proof -
  let ?m = "mem_of [''prog'', ''foo'', ''bar'', ''baz'', ''-o'']"
  let ?av = "[Ptr 0 0, Ptr 4 0, Ptr 1 0, Ptr 2 0, Ptr 3 0]"
  have "permute_loop ?m (Ptr 1 0) 3 5 ?av = None"
  proof (cases "permute_loop ?m (Ptr 1 0) 3 5 ?av")
    case None
    then show ?thesis .
  next
    case (Some r)
    from permute_loop_no_exit [OF Some] have False
      by (simp add: deref_def mem_of_def char_at_def)
    then show ?thesis ..
  qed
  then have "getopt ?m 5 ''o:''
         \<lparr>optarg = Ptr 1 0, optopt = char_code CHR ''o'', optind = 3, opterr = 0,
          optcursor = NULL, first = Ptr 1 0, argv = ?av, ints = (\<lambda>_. 0), stderr = []\<rparr>
     = None"
    by (simp add: getopt_def getopt_front_def getopt_begin_def permute_def rd_def deref_def
        mem_of_def char_at_def Let_def)
  moreover have "getopt ?m 5 ''o:'' (init_state [Ptr 0 0, Ptr 1 0, Ptr 2 0, Ptr 3 0, Ptr 4 0])
     = Some (Inr (char_code CHR ''o'',
         \<lparr>optarg = Ptr 1 0, optopt = char_code CHR ''o'', optind = 3, opterr = 0,
          optcursor = NULL, first = Ptr 1 0, argv = ?av, ints = (\<lambda>_. 0), stderr = []\<rparr>))"
    by (simp add: eval_defs permute_loop.simps)
  ultimately show ?thesis by simp
qed

end
